theory Spec2Isabelle
  imports Main "HOL-Library.Sublist"
begin

section \<open>Package validation of the compute command (pkg/commands/compute/validate.go)\<close>

text \<open>
  The function \<^verbatim>\<open>validate(path, fileValidator)\<close> opens a tar.gz package, streams its
  entries once, records which of the two required file names it has seen, hands every
  entry to the optional validator, closes the entry, and after the end of the stream
  reports a required file that never showed up.

  The file system, the archiver library and the Go runtime are outside the function.
  They enter the model as data: what \<^verbatim>\<open>os.Open\<close> and \<^verbatim>\<open>tar.Open\<close> answer, which
  entries \<^verbatim>\<open>tar.Read\<close> yields and with which error it stops, what \<^verbatim>\<open>f.Close\<close>
  answers for each entry, and in which order a \<^verbatim>\<open>range\<close> statement walks the keys of
  the map \<^verbatim>\<open>files\<close>. Every call that has an effect outside the function is logged in a
  trace, so that statements like ``no further entry is read'' can be made.
\<close>

subsection \<open>Go error values\<close>

text \<open>
  \<open>EOF\<close> is the sentinel \<^verbatim>\<open>io.EOF\<close>, which the code recognises by identity.
  \<open>ErrorString m\<close> is an error that only carries a message, as \<^verbatim>\<open>errors.New\<close> and
  \<^verbatim>\<open>fmt.Errorf\<close> without \<^verbatim>\<open>%w\<close> build. \<open>WrapError m e\<close> is what \<^verbatim>\<open>fmt.Errorf\<close> builds
  for a format with \<^verbatim>\<open>%w\<close>: the formatted message and the wrapped error.
\<close>

datatype go_error =
    EOF
  | ErrorString string
  | WrapError string go_error

definition io_EOF :: go_error where
  "io_EOF = EOF"

text \<open>The method \<^verbatim>\<open>Error()\<close>: the message of an error value.\<close>

fun Error_msg :: "go_error \<Rightarrow> string" where
  "Error_msg EOF = ''EOF''"
| "Error_msg (ErrorString m) = m"
| "Error_msg (WrapError m e) = m"

text \<open>\<^verbatim>\<open>fmt.Errorf(msg + "%w", err)\<close>.\<close>

definition Errorf_w :: "string \<Rightarrow> go_error \<Rightarrow> go_error" where
  "Errorf_w msg e = WrapError (msg @ Error_msg e) e"

text \<open>\<^verbatim>\<open>fmt.Errorf("error validating package: package must contain a %s file", k)\<close>.\<close>

definition Errorf_missing :: "string \<Rightarrow> go_error" where
  "Errorf_missing k =
     ErrorString (''error validating package: package must contain a '' @ k @ '' file'')"

subsection \<open>Archive entries, archives, the outside world\<close>

text \<open>
  An \<^verbatim>\<open>archiver.File\<close> as far as \<^verbatim>\<open>validate\<close> and a validator can see it:
  \<open>Header_Name\<close> is the full name of the entry, the path that its tar header carries
  (\<^verbatim>\<open>f.Header.(*tar.Header).Name\<close>); \<open>Name\<close> is the string the method \<^verbatim>\<open>f.Name()\<close> returns,
  which is the only name that \<^verbatim>\<open>validate\<close> looks at; \<open>Body\<close> is the bytes its reader
  yields; \<open>Close\<close> is the answer of \<^verbatim>\<open>f.Close()\<close> (\<open>None\<close> is \<^verbatim>\<open>nil\<close>).
\<close>

record archiver_File =
  Header_Name :: string
  Name :: string
  Body :: string
  Close :: "go_error option"

text \<open>
  \<^verbatim>\<open>f.Name()\<close> is the method of the \<^verbatim>\<open>os.FileInfo\<close> inside an \<^verbatim>\<open>archiver.File\<close>. Neither
  the archiver nor Go's \<^verbatim>\<open>archive/tar\<close> is code of this repository; what follows is the
  behaviour of the standard library. For an entry of a tar archive the archiver takes
  the \<^verbatim>\<open>FileInfo\<close> of the tar header, and the \<^verbatim>\<open>Name()\<close> of that, for an entry that is not
  a directory, is \<^verbatim>\<open>path.Base\<close> of the header's name: trailing slashes are dropped, then
  everything up to the last slash; the empty path gives a dot, a path of slashes only
  gives a slash.
\<close>

definition path_Base :: "string \<Rightarrow> string" where
  "path_Base p =
     (if p = [] then ''.''
      else let q = rev (dropWhile (\<lambda>c. c = CHR ''/'') (rev p));
               r = rev (takeWhile (\<lambda>c. c \<noteq> CHR ''/'') (rev q))
           in if r = [] then ''/'' else r)"

text \<open>\<open>tar_named f\<close>: the entry \<open>f\<close> has the name that the tar reader gives it.\<close>

definition tar_named :: "archiver_File \<Rightarrow> bool" where
  "tar_named f \<longleftrightarrow> Name f = path_Base (Header_Name f)"

text \<open>
  An opened \<^verbatim>\<open>*os.File\<close> as the archiver sees it: the answer of \<^verbatim>\<open>tar.Open(file, 0)\<close>,
  the entries that successive calls of \<^verbatim>\<open>tar.Read()\<close> return, and the error that
  \<^verbatim>\<open>tar.Read()\<close> returns once they are used up (\<^verbatim>\<open>io.EOF\<close> for an intact archive, any
  other error for a corrupt or truncated one).
\<close>

record archive =
  tar_Open :: "go_error option"
  tar_entries :: "archiver_File list"
  tar_ending :: go_error

record world =
  filepath_Clean :: "string \<Rightarrow> string"
  os_Open :: "string \<Rightarrow> go_error + archive"

text \<open>
  \<^verbatim>\<open>type FileValidator func(archiver.File) error\<close>. A Go function value may be a closure
  with state of its own, so a validator takes its state and returns the new one with
  its answer. The parameter \<^verbatim>\<open>fileValidator\<close> may be \<^verbatim>\<open>nil\<close>: an \<open>option\<close>.
\<close>

type_synonym 's FileValidator = "archiver_File \<Rightarrow> 's \<Rightarrow> go_error option \<times> 's"

subsection \<open>The trace of outside calls\<close>

datatype event =
    EvOpen string       \<comment> \<open>\<^verbatim>\<open>os.Open(p)\<close>\<close>
  | EvTarOpen           \<comment> \<open>\<^verbatim>\<open>tar.Open(file, 0)\<close>\<close>
  | EvRead              \<comment> \<open>\<^verbatim>\<open>tar.Read()\<close>\<close>
  | EvMark string       \<comment> \<open>\<^verbatim>\<open>files[k] = true\<close>\<close>
  | EvHook archiver_File         \<comment> \<open>\<^verbatim>\<open>fileValidator(f)\<close>\<close>
  | EvClose archiver_File        \<comment> \<open>\<^verbatim>\<open>f.Close()\<close>\<close>
  | EvCheck             \<comment> \<open>the loop over \<^verbatim>\<open>files\<close> after the stream has ended\<close>
  | EvTarClose          \<comment> \<open>the deferred \<^verbatim>\<open>tar.Close()\<close>\<close>
  | EvFileClose         \<comment> \<open>the deferred \<^verbatim>\<open>file.Close()\<close>\<close>

subsection \<open>The local state of one call\<close>

text \<open>
  \<open>files\<close> is the map \<^verbatim>\<open>files\<close>, \<open>hstate\<close> the validator's own state, \<open>ranges\<close>
  counts the \<^verbatim>\<open>range\<close> statements executed so far, \<open>trace\<close> is the log.
\<close>

record 's state =
  files :: "string \<rightharpoonup> bool"
  hstate :: 's
  ranges :: nat
  trace :: "event list"

definition log :: "event \<Rightarrow> 's state \<Rightarrow> 's state" where
  "log ev st = st\<lparr>trace := trace st @ [ev]\<rparr>"

text \<open>
  Lines 111 to 115:
  \<^verbatim>\<open>for k := range files { if k == f.Name() { files[k] = true } }\<close>.
  Go leaves the order of a \<^verbatim>\<open>range\<close> over a map open and the runtime varies it from one
  statement to the next; \<open>ord n\<close> is the order in which the \<open>n\<close>-th \<^verbatim>\<open>range\<close> statement of
  the call yields the keys.
\<close>

definition mark_step :: "string \<Rightarrow> string \<Rightarrow> 's state \<Rightarrow> 's state" where
  "mark_step name k st =
     (if k = name then log (EvMark k) (st\<lparr>files := (files st)(k \<mapsto> True)\<rparr>) else st)"

definition mark_required :: "(nat \<Rightarrow> string list) \<Rightarrow> string \<Rightarrow> 's state \<Rightarrow> 's state" where
  "mark_required ord name st =
     (fold (mark_step name) (ord (ranges st)) st)\<lparr>ranges := Suc (ranges st)\<rparr>"

text \<open>Line 117 and 118: the validator is called only when it is not \<^verbatim>\<open>nil\<close>.\<close>

definition call_validator ::
  "'s FileValidator option \<Rightarrow> archiver_File \<Rightarrow> 's state \<Rightarrow> go_error option \<times> 's state" where
  "call_validator fileValidator f st =
     (case fileValidator of
        None \<Rightarrow> (None, st)
      | Some h \<Rightarrow>
          (case h f (hstate st) of
             (r, s') \<Rightarrow> (r, log (EvHook f) (st\<lparr>hstate := s'\<rparr>))))"

text \<open>
  One turn of the loop body for an entry \<open>f\<close> that \<^verbatim>\<open>tar.Read()\<close> has returned (lines
  111 to 127). The first component is \<open>Some err\<close> when the body returns \<open>err\<close> from
  \<^verbatim>\<open>validate\<close>, and \<open>None\<close> when the loop goes on.
\<close>

definition iteration ::
  "'s FileValidator option \<Rightarrow> (nat \<Rightarrow> string list) \<Rightarrow> archiver_File \<Rightarrow> 's state
     \<Rightarrow> go_error option \<times> 's state" where
  "iteration fileValidator ord f st =
     (case call_validator fileValidator f (mark_required ord (Name f) st) of
        (Some err, st') \<Rightarrow> (Some err, log (EvClose f) st')
      | (None, st') \<Rightarrow>
          (case Close f of
             Some err \<Rightarrow> (Some (Errorf_w ''error closing file: '' err), log (EvClose f) st')
           | None \<Rightarrow> (None, log (EvClose f) st')))"

text \<open>
  The loop of lines 102 to 128 over the entries still to come. With no entry left
  \<^verbatim>\<open>tar.Read()\<close> returns the archive's ending error: \<^verbatim>\<open>io.EOF\<close> breaks the loop (\<open>None\<close>),
  any other error is returned wrapped.
\<close>

fun stream_loop ::
  "'s FileValidator option \<Rightarrow> (nat \<Rightarrow> string list) \<Rightarrow> go_error \<Rightarrow> archiver_File list \<Rightarrow> 's state
     \<Rightarrow> go_error option \<times> 's state" where
  "stream_loop fileValidator ord ending [] st =
     (if ending = io_EOF then (None, log EvRead st)
      else (Some (Errorf_w ''error reading package: '' ending), log EvRead st))"
| "stream_loop fileValidator ord ending (f # fs) st =
     (case iteration fileValidator ord f (log EvRead st) of
        (Some err, st') \<Rightarrow> (Some err, st')
      | (None, st') \<Rightarrow> stream_loop fileValidator ord ending fs st')"

text \<open>
  Lines 130 to 134: \<^verbatim>\<open>for k, found := range files { if !found { return ... } }\<close>, with the
  keys in the order \<open>ks\<close> of this \<^verbatim>\<open>range\<close> statement.
\<close>

fun check_required :: "string list \<Rightarrow> (string \<rightharpoonup> bool) \<Rightarrow> go_error option" where
  "check_required [] fm = None"
| "check_required (k # ks) fm =
     (if fm k = Some False then Some (Errorf_missing k) else check_required ks fm)"

text \<open>What a call of \<^verbatim>\<open>validate\<close> leaves behind: the error it returns (\<open>None\<close> is \<^verbatim>\<open>nil\<close>),
  the trace of its outside calls, and the validator's state.\<close>

record 's outcome =
  returned :: "go_error option"
  events :: "event list"
  hook_state :: 's

definition validate ::
  "world \<Rightarrow> (nat \<Rightarrow> string list) \<Rightarrow> string \<Rightarrow> 's FileValidator option \<Rightarrow> 's \<Rightarrow> 's outcome" where
  "validate w ord path fileValidator s =
     (let p = filepath_Clean w path in
      case os_Open w p of
        Inl err \<Rightarrow>
          \<lparr>returned = Some (Errorf_w ''error reading package: '' err),
           events = [EvOpen p], hook_state = s\<rparr>
      | Inr file \<Rightarrow>
          (case tar_Open file of
             Some err \<Rightarrow>
               \<lparr>returned = Some (Errorf_w ''error unarchiving package: '' err),
                events = [EvOpen p, EvTarOpen, EvFileClose], hook_state = s\<rparr>
           | None \<Rightarrow>
               (case stream_loop fileValidator ord (tar_ending file) (tar_entries file)
                       \<lparr>files = [''fastly.toml'' \<mapsto> False, ''main.wasm'' \<mapsto> False],
                        hstate = s, ranges = 0, trace = [EvOpen p, EvTarOpen]\<rparr> of
                  (Some err, st) \<Rightarrow>
                    \<lparr>returned = Some err,
                     events = trace st @ [EvTarClose, EvFileClose], hook_state = hstate st\<rparr>
                | (None, st) \<Rightarrow>
                    \<lparr>returned = check_required (ord (ranges st)) (files st),
                     events = trace st @ [EvCheck, EvTarClose, EvFileClose],
                     hook_state = hstate st\<rparr>)))"

subsection \<open>Vocabulary of the properties\<close>

text \<open>
  The map \<^verbatim>\<open>files\<close> has the two keys \<^verbatim>\<open>fastly.toml\<close> and \<^verbatim>\<open>main.wasm\<close> from line 97 on
  and the code never adds or deletes a key. A \<^verbatim>\<open>range\<close> statement over it yields each key
  once, in an order of the runtime's choosing: \<open>range_ok ord\<close> says that every \<open>ord n\<close>
  is such an order.
\<close>

definition range_ok :: "(nat \<Rightarrow> string list) \<Rightarrow> bool" where
  "range_ok ord \<longleftrightarrow>
     (\<forall>n. distinct (ord n) \<and> set (ord n) = {''fastly.toml'', ''main.wasm''})"

text \<open>
  \<open>accepted fileValidator fs s\<close> follows the validator through the entries \<open>fs\<close>, starting
  in the validator state \<open>s\<close>: \<open>Some s'\<close> when it rejects none of them (a \<^verbatim>\<open>nil\<close>
  validator rejects nothing) and ends in the state \<open>s'\<close>, \<open>None\<close> when it rejects one.
\<close>

fun accepted :: "'s FileValidator option \<Rightarrow> archiver_File list \<Rightarrow> 's \<Rightarrow> 's option" where
  "accepted fileValidator [] s = Some s"
| "accepted fileValidator (f # fs) s =
     (case fileValidator of
        None \<Rightarrow> accepted fileValidator fs s
      | Some h \<Rightarrow>
          (case h f s of
             (None, s') \<Rightarrow> accepted fileValidator fs s'
           | (Some err, s') \<Rightarrow> None))"

subsection \<open>Concrete packages and range orders\<close>

text \<open>
  The two orders in which a \<^verbatim>\<open>range\<close> statement can yield the keys, here the same
  order for every statement of a call; an entry at the top level of the archive (its
  name has no slash), with no content and a clean close; an entry whose close fails; and a file system in which every path opens a
  gzipped tar archive with the given entries and ending.
\<close>

definition fastly_first :: "nat \<Rightarrow> string list" where
  "fastly_first n = [''fastly.toml'', ''main.wasm'']"

definition wasm_first :: "nat \<Rightarrow> string list" where
  "wasm_first n = [''main.wasm'', ''fastly.toml'']"

definition entry :: "string \<Rightarrow> archiver_File" where
  "entry n = \<lparr>Header_Name = n, Name = n, Body = [], Close = None\<rparr>"

definition broken_entry :: "string \<Rightarrow> archiver_File" where
  "broken_entry n =
     \<lparr>Header_Name = n, Name = n, Body = [], Close = Some (ErrorString ''close failed'')\<rparr>"

text \<open>An entry as the tar reader builds it from the path in its header.\<close>

definition tar_file :: "string \<Rightarrow> archiver_File" where
  "tar_file p = \<lparr>Header_Name = p, Name = path_Base p, Body = [], Close = None\<rparr>"

definition package :: "archiver_File list \<Rightarrow> go_error \<Rightarrow> world" where
  "package fs ending =
     \<lparr>filepath_Clean = (\<lambda>p. p),
      os_Open = (\<lambda>p. Inr \<lparr>tar_Open = None, tar_entries = fs, tar_ending = ending\<rparr>)\<rparr>"

text \<open>Two file systems for the failures of opening, and two validators with a call
  counter as their state.\<close>

definition no_such_file :: world where
  "no_such_file =
     \<lparr>filepath_Clean = (\<lambda>p. p),
      os_Open = (\<lambda>p. Inl (ErrorString (''open '' @ p @ '': no such file or directory'')))\<rparr>"

definition not_gzip :: world where
  "not_gzip =
     \<lparr>filepath_Clean = (\<lambda>p. p),
      os_Open = (\<lambda>p. Inr \<lparr>tar_Open = Some (ErrorString ''gzip: invalid header''),
                            tar_entries = [], tar_ending = io_EOF\<rparr>)\<rparr>"

definition accept_all :: "nat FileValidator" where
  "accept_all f n = (None, Suc n)"

definition reject_secret :: "nat FileValidator" where
  "reject_secret f n =
     (if Name f = ''secret.key'' then Some (ErrorString ''package contains secret.key'') else None,
      Suc n)"

section \<open>Lemmas about the loop\<close>

lemma fold_mark_step:
  "distinct ks \<Longrightarrow>
   fold (mark_step name) ks st =
     (if name \<in> set ks then mark_step name name st else st)"
proof (induction ks arbitrary: st)
  case Nil
  then show ?case by simp
next
  case (Cons k ks)
  show ?case
  proof (cases "k = name")
    case True
    with Cons.prems have "name \<notin> set ks" by simp
    with Cons True show ?thesis by simp
  next
    case False
    then have "mark_step name k st = st" by (simp add: mark_step_def)
    with Cons False show ?thesis by simp
  qed
qed

lemma mark_required_eq:
  assumes "range_ok ord"
  shows "mark_required ord name st =
     (if name = ''fastly.toml'' \<or> name = ''main.wasm''
      then st\<lparr>files := (files st)(name \<mapsto> True), ranges := Suc (ranges st),
              trace := trace st @ [EvMark name]\<rparr>
      else st\<lparr>ranges := Suc (ranges st)\<rparr>)"
proof -
  from assms have d: "distinct (ord (ranges st))"
    and s: "set (ord (ranges st)) = {''fastly.toml'', ''main.wasm''}"
    by (simp_all add: range_ok_def)
  show ?thesis
    unfolding mark_required_def fold_mark_step [OF d] s
    by (simp add: log_def mark_step_def)
qed

lemma range_two:
  assumes "range_ok ord"
  shows "ord n = [''fastly.toml'', ''main.wasm''] \<or> ord n = [''main.wasm'', ''fastly.toml'']"
proof -
  from assms have d: "distinct (ord n)" and s: "set (ord n) = {''fastly.toml'', ''main.wasm''}"
    by (simp_all add: range_ok_def)
  from d have "length (ord n) = card (set (ord n))" by (simp add: distinct_card)
  with s have "length (ord n) = 2" by simp
  then obtain x y where xy: "ord n = [x, y]"
    by (auto simp: length_Suc_conv numeral_2_eq_2)
  with s have "{x, y} = {''fastly.toml'', ''main.wasm''}" by simp
  then have "(x = ''fastly.toml'' \<and> y = ''main.wasm'') \<or> (x = ''main.wasm'' \<and> y = ''fastly.toml'')"
    by (simp add: doubleton_eq_iff)
  with xy show ?thesis by auto
qed


lemma call_validator_accepted:
  assumes "accepted fv [f] (hstate st) = Some s1"
  shows "call_validator fv f st =
     (None, st\<lparr>hstate := s1, trace := trace st @ (case fv of None \<Rightarrow> [] | Some h \<Rightarrow> [EvHook f])\<rparr>)"
  using assms
  by (auto simp: call_validator_def log_def split: option.splits prod.splits)

lemma accepted_Cons:
  "accepted fv (f # fs) s = Some s1 \<longleftrightarrow>
     (\<exists>s'. accepted fv [f] s = Some s' \<and> accepted fv fs s' = Some s1)"
  by (auto split: option.splits prod.splits)

lemma iteration_clean:
  assumes "range_ok ord" and "Close f = None" and "accepted fv [f] (hstate st) = Some s1"
  shows "\<exists>st' tr. iteration fv ord f st = (None, st')
     \<and> hstate st' = s1 \<and> ranges st' = Suc (ranges st)
     \<and> files st' = (if Name f = ''fastly.toml'' \<or> Name f = ''main.wasm''
                     then (files st)(Name f \<mapsto> True) else files st)
     \<and> trace st' = trace st @ tr \<and> count_list tr EvRead = 0 \<and> EvCheck \<notin> set tr
     \<and> (\<forall>k. EvMark k \<in> set tr \<longrightarrow> k = Name f)"
proof -
  let ?m = "mark_required ord (Name f) st"
  have h: "hstate ?m = hstate st"
    by (simp add: mark_required_eq [OF assms(1)])
  have c: "call_validator fv f ?m =
      (None, ?m\<lparr>hstate := s1, trace := trace ?m @ (case fv of None \<Rightarrow> [] | Some h \<Rightarrow> [EvHook f])\<rparr>)"
    using assms(3) unfolding h [symmetric] by (rule call_validator_accepted)
  show ?thesis
    unfolding iteration_def c
    by (simp add: assms(2) log_def mark_required_eq [OF assms(1)] split: option.splits)
qed

lemma stream_loop_prefix:
  assumes ok: "range_ok ord"
  shows "\<forall>f\<in>set pre. Close f = None \<Longrightarrow> accepted fv pre (hstate st) = Some s1 \<Longrightarrow>
    \<exists>st' tr. stream_loop fv ord ending (pre @ rest) st = stream_loop fv ord ending rest st'
      \<and> hstate st' = s1 \<and> ranges st' = ranges st + length pre
      \<and> files st' = (\<lambda>k. if k \<in> Name ` set pre \<and> (k = ''fastly.toml'' \<or> k = ''main.wasm'')
                          then Some True else files st k)
      \<and> trace st' = trace st @ tr \<and> count_list tr EvRead = length pre \<and> EvCheck \<notin> set tr
      \<and> (\<forall>k. EvMark k \<in> set tr \<longrightarrow> k \<in> Name ` set pre)"
proof (induction pre arbitrary: st)
  case Nil
  then show ?case by (auto intro!: exI [of _ st])
next
  case (Cons f pre)
  obtain s' where
    a1: "accepted fv [f] (hstate (log EvRead st)) = Some s'" and a2: "accepted fv pre s' = Some s1"
    using accepted_Cons [THEN iffD1, OF Cons.prems(2)] by (auto simp: log_def)
  from Cons.prems(1) have cf: "Close f = None" and cp: "\<forall>f\<in>set pre. Close f = None"
    by simp_all
  from iteration_clean [OF ok cf a1] obtain st1 tr1 where
    i: "iteration fv ord f (log EvRead st) = (None, st1)"
    and h1: "hstate st1 = s'" and r1: "ranges st1 = Suc (ranges st)"
    and f1: "files st1 = (if Name f = ''fastly.toml'' \<or> Name f = ''main.wasm''
                     then (files st)(Name f \<mapsto> True) else files st)"
    and t1: "trace st1 = trace st @ [EvRead] @ tr1" and n1: "count_list tr1 EvRead = 0"
    and k1: "EvCheck \<notin> set tr1" and m1: "\<forall>k. EvMark k \<in> set tr1 \<longrightarrow> k = Name f"
    by (auto simp: log_def)
  from a2 h1 have a2': "accepted fv pre (hstate st1) = Some s1" by simp
  from Cons.IH [OF cp a2'] obtain st2 tr2 where
    l: "stream_loop fv ord ending (pre @ rest) st1 = stream_loop fv ord ending rest st2"
    and h2: "hstate st2 = s1" and r2: "ranges st2 = ranges st1 + length pre"
    and f2: "files st2 = (\<lambda>k. if k \<in> Name ` set pre \<and> (k = ''fastly.toml'' \<or> k = ''main.wasm'')
                          then Some True else files st1 k)"
    and t2: "trace st2 = trace st1 @ tr2" and n2: "count_list tr2 EvRead = length pre"
    and k2: "EvCheck \<notin> set tr2" and m2: "\<forall>k. EvMark k \<in> set tr2 \<longrightarrow> k \<in> Name ` set pre"
    by blast
  have e: "stream_loop fv ord ending ((f # pre) @ rest) st = stream_loop fv ord ending rest st2"
    using i l by simp
  have r: "ranges st2 = ranges st + length (f # pre)"
    using r1 r2 by simp
  have f: "files st2 = (\<lambda>k. if k \<in> Name ` set (f # pre) \<and> (k = ''fastly.toml'' \<or> k = ''main.wasm'')
                          then Some True else files st k)"
    unfolding f2 f1 by (rule ext) auto
  have t: "trace st2 = trace st @ ([EvRead] @ tr1 @ tr2)"
    using t1 t2 by simp
  have n: "count_list ([EvRead] @ tr1 @ tr2) EvRead = length (f # pre)"
    using n1 n2 by simp
  have k: "EvCheck \<notin> set ([EvRead] @ tr1 @ tr2)"
    using k1 k2 by simp
  have m: "\<forall>k. EvMark k \<in> set ([EvRead] @ tr1 @ tr2) \<longrightarrow> k \<in> Name ` set (f # pre)"
    using m1 m2 by auto
  from e h2 r f t n k m show ?case by blast
qed

lemma check_required_filter:
  "\<forall>k\<in>set ks. fm k = Some (k \<in> N) \<Longrightarrow>
   check_required ks fm =
     (case filter (\<lambda>k. k \<notin> N) ks of [] \<Rightarrow> None | k # _ \<Rightarrow> Some (Errorf_missing k))"
  by (induction ks) auto


lemma accepted_append:
  "accepted fv (xs @ ys) s =
     (case accepted fv xs s of None \<Rightarrow> None | Some s' \<Rightarrow> accepted fv ys s')"
  by (induction xs arbitrary: s) (auto split: option.splits prod.splits)

lemma iteration_reject:
  assumes "range_ok ord" and "h f (hstate st) = (Some e, s2)"
  shows "\<exists>st' tr. iteration (Some h) ord f st = (Some e, st') \<and> hstate st' = s2
     \<and> trace st' = trace st @ tr @ [EvHook f, EvClose f]
     \<and> count_list tr EvRead = 0 \<and> EvCheck \<notin> set tr"
  using assms(2)
  by (simp add: iteration_def call_validator_def log_def mark_required_eq [OF assms(1)])

lemma iteration_close_fail:
  assumes "range_ok ord" and "accepted fv [f] (hstate st) = Some s1" and "Close f = Some e"
  shows "\<exists>st' tr. iteration fv ord f st = (Some (Errorf_w ''error closing file: '' e), st')
     \<and> hstate st' = s1 \<and> trace st' = trace st @ tr @ [EvClose f]
     \<and> count_list tr EvRead = 0 \<and> EvCheck \<notin> set tr"
proof -
  let ?m = "mark_required ord (Name f) st"
  have h: "hstate ?m = hstate st"
    by (simp add: mark_required_eq [OF assms(1)])
  have c: "call_validator fv f ?m =
      (None, ?m\<lparr>hstate := s1, trace := trace ?m @ (case fv of None \<Rightarrow> [] | Some h \<Rightarrow> [EvHook f])\<rparr>)"
    using assms(2) unfolding h [symmetric] by (rule call_validator_accepted)
  show ?thesis
    unfolding iteration_def c
    by (simp add: assms(3) log_def mark_required_eq [OF assms(1)] split: option.splits)
qed

lemma validate_opened:
  assumes "os_Open w (filepath_Clean w path) = Inr a" and "tar_Open a = None"
  shows "validate w ord path fv s =
     (case stream_loop fv ord (tar_ending a) (tar_entries a)
             \<lparr>files = [''fastly.toml'' \<mapsto> False, ''main.wasm'' \<mapsto> False],
              hstate = s, ranges = 0, trace = [EvOpen (filepath_Clean w path), EvTarOpen]\<rparr> of
        (Some err, st) \<Rightarrow>
          \<lparr>returned = Some err,
           events = trace st @ [EvTarClose, EvFileClose], hook_state = hstate st\<rparr>
      | (None, st) \<Rightarrow>
          \<lparr>returned = check_required (ord (ranges st)) (files st),
           events = trace st @ [EvCheck, EvTarClose, EvFileClose],
           hook_state = hstate st\<rparr>)"
  using assms by (simp add: validate_def Let_def)


lemma validate_clean:
  assumes ok: "range_ok ord"
    and op: "os_Open w (filepath_Clean w path) = Inr a" and to: "tar_Open a = None"
    and en: "tar_ending a = io_EOF"
    and cl: "\<forall>f\<in>set (tar_entries a). Close f = None"
    and ac: "accepted fv (tar_entries a) s = Some s1"
  shows "returned (validate w ord path fv s) =
      (case filter (\<lambda>k. k \<notin> Name ` set (tar_entries a)) (ord (length (tar_entries a))) of
         [] \<Rightarrow> None | k # _ \<Rightarrow> Some (Errorf_missing k))
    \<and> hook_state (validate w ord path fv s) = s1
    \<and> EvCheck \<in> set (events (validate w ord path fv s))
    \<and> count_list (events (validate w ord path fv s)) EvRead = Suc (length (tar_entries a))
    \<and> (\<forall>k. EvMark k \<in> set (events (validate w ord path fv s)) \<longrightarrow> k \<in> Name ` set (tar_entries a))"
proof -
  let ?st0 = "\<lparr>files = [''fastly.toml'' \<mapsto> False, ''main.wasm'' \<mapsto> False],
              hstate = s, ranges = 0, trace = [EvOpen (filepath_Clean w path), EvTarOpen]\<rparr>"
  let ?fs = "tar_entries a"
  have ac': "accepted fv ?fs (hstate ?st0) = Some s1" using ac by simp
  from stream_loop_prefix [OF ok cl ac', of "tar_ending a" "[]"] obtain st' tr where
    l: "stream_loop fv ord (tar_ending a) ?fs ?st0 = stream_loop fv ord (tar_ending a) [] st'"
    and h: "hstate st' = s1" and r: "ranges st' = length ?fs"
    and f: "files st' = (\<lambda>k. if k \<in> Name ` set ?fs \<and> (k = ''fastly.toml'' \<or> k = ''main.wasm'')
                          then Some True else files ?st0 k)"
    and t: "trace st' = trace ?st0 @ tr" and n: "count_list tr EvRead = length ?fs"
    and c: "EvCheck \<notin> set tr" and m: "\<forall>k. EvMark k \<in> set tr \<longrightarrow> k \<in> Name ` set ?fs"
    by auto
  have l': "stream_loop fv ord (tar_ending a) ?fs ?st0 = (None, log EvRead st')"
    unfolding l by (simp add: en)
  have v: "validate w ord path fv s =
      \<lparr>returned = check_required (ord (length ?fs)) (files st'),
       events = trace ?st0 @ tr @ [EvRead, EvCheck, EvTarClose, EvFileClose],
       hook_state = s1\<rparr>"
    unfolding validate_opened [OF op to] l' by (simp add: log_def h r t)
  have "\<forall>k\<in>set (ord (length ?fs)). files st' k = Some (k \<in> Name ` set ?fs)"
    using ok unfolding f range_ok_def by auto
  then have q: "check_required (ord (length ?fs)) (files st') =
      (case filter (\<lambda>k. k \<notin> Name ` set ?fs) (ord (length ?fs)) of
         [] \<Rightarrow> None | k # _ \<Rightarrow> Some (Errorf_missing k))"
    by (rule check_required_filter)
  show ?thesis
    unfolding v using q n c m by simp
qed

lemma validate_reject:
  assumes ok: "range_ok ord"
    and op: "os_Open w (filepath_Clean w path) = Inr a" and to: "tar_Open a = None"
    and en: "tar_entries a = pre @ f # rest"
    and cl: "\<forall>g\<in>set pre. Close g = None"
    and ac: "accepted (Some h) pre s = Some s1"
    and rj: "h f s1 = (Some e, s2)"
  shows "\<exists>tr. validate w ord path (Some h) s =
      \<lparr>returned = Some e,
       events = tr @ [EvHook f, EvClose f, EvTarClose, EvFileClose],
       hook_state = s2\<rparr>
    \<and> count_list tr EvRead = Suc (length pre) \<and> EvCheck \<notin> set tr"
proof -
  let ?st0 = "\<lparr>files = [''fastly.toml'' \<mapsto> False, ''main.wasm'' \<mapsto> False],
              hstate = s, ranges = 0, trace = [EvOpen (filepath_Clean w path), EvTarOpen]\<rparr>"
  have ac': "accepted (Some h) pre (hstate ?st0) = Some s1" using ac by simp
  from stream_loop_prefix [OF ok cl ac', of "tar_ending a" "f # rest"] obtain st' tr where
    l: "stream_loop (Some h) ord (tar_ending a) (pre @ f # rest) ?st0 =
        stream_loop (Some h) ord (tar_ending a) (f # rest) st'"
    and hs: "hstate st' = s1"
    and t: "trace st' = trace ?st0 @ tr" and n: "count_list tr EvRead = length pre"
    and c: "EvCheck \<notin> set tr"
    by auto
  have hr: "h f (hstate (log EvRead st')) = (Some e, s2)"
    using rj hs by (simp add: log_def)
  from iteration_reject [of ord h f "log EvRead st'" e s2, OF ok hr] obtain st2 tr2 where
    i: "iteration (Some h) ord f (log EvRead st') = (Some e, st2)" and h2: "hstate st2 = s2"
    and t2: "trace st2 = trace (log EvRead st') @ tr2 @ [EvHook f, EvClose f]"
    and n2: "count_list tr2 EvRead = 0" and c2: "EvCheck \<notin> set tr2"
    by blast
  have v: "validate w ord path (Some h) s =
      \<lparr>returned = Some e,
       events = ([EvOpen (filepath_Clean w path), EvTarOpen] @ tr @ [EvRead] @ tr2)
                  @ [EvHook f, EvClose f, EvTarClose, EvFileClose],
       hook_state = s2\<rparr>"
  proof -
    have "stream_loop (Some h) ord (tar_ending a) (f # rest) st' = (Some e, st2)"
      using i by simp
    then show ?thesis
      unfolding validate_opened [OF op to] en l by (simp add: h2 t2 t log_def)
  qed
  have "count_list ([EvOpen (filepath_Clean w path), EvTarOpen] @ tr @ [EvRead] @ tr2) EvRead
          = Suc (length pre)"
    using n n2 by simp
  moreover have "EvCheck \<notin> set ([EvOpen (filepath_Clean w path), EvTarOpen] @ tr @ [EvRead] @ tr2)"
    using c c2 by simp
  ultimately show ?thesis using v by blast
qed


lemma validate_close_fail:
  assumes ok: "range_ok ord"
    and op: "os_Open w (filepath_Clean w path) = Inr a" and to: "tar_Open a = None"
    and en: "tar_entries a = pre @ f # rest"
    and cl: "\<forall>g\<in>set pre. Close g = None"
    and ac: "accepted fv (pre @ [f]) s = Some s1"
    and cf: "Close f = Some e"
  shows "\<exists>tr. validate w ord path fv s =
      \<lparr>returned = Some (Errorf_w ''error closing file: '' e),
       events = tr @ [EvClose f, EvTarClose, EvFileClose],
       hook_state = s1\<rparr>
    \<and> count_list tr EvRead = Suc (length pre) \<and> EvCheck \<notin> set tr"
proof -
  let ?st0 = "\<lparr>files = [''fastly.toml'' \<mapsto> False, ''main.wasm'' \<mapsto> False],
              hstate = s, ranges = 0, trace = [EvOpen (filepath_Clean w path), EvTarOpen]\<rparr>"
  from ac obtain s' where ap: "accepted fv pre (hstate ?st0) = Some s'"
    and af: "accepted fv [f] s' = Some s1"
    unfolding accepted_append by (auto split: option.splits)
  from stream_loop_prefix [OF ok cl ap, of "tar_ending a" "f # rest"] obtain st' tr where
    l: "stream_loop fv ord (tar_ending a) (pre @ f # rest) ?st0 =
        stream_loop fv ord (tar_ending a) (f # rest) st'"
    and hs: "hstate st' = s'"
    and t: "trace st' = trace ?st0 @ tr" and n: "count_list tr EvRead = length pre"
    and c: "EvCheck \<notin> set tr"
    by auto
  have af': "accepted fv [f] (hstate (log EvRead st')) = Some s1"
    using af hs by (simp add: log_def)
  from iteration_close_fail [OF ok af' cf] obtain st2 tr2 where
    i: "iteration fv ord f (log EvRead st') = (Some (Errorf_w ''error closing file: '' e), st2)"
    and h2: "hstate st2 = s1"
    and t2: "trace st2 = trace (log EvRead st') @ tr2 @ [EvClose f]"
    and n2: "count_list tr2 EvRead = 0" and c2: "EvCheck \<notin> set tr2"
    by blast
  have v: "validate w ord path fv s =
      \<lparr>returned = Some (Errorf_w ''error closing file: '' e),
       events = ([EvOpen (filepath_Clean w path), EvTarOpen] @ tr @ [EvRead] @ tr2)
                  @ [EvClose f, EvTarClose, EvFileClose],
       hook_state = s1\<rparr>"
  proof -
    have "stream_loop fv ord (tar_ending a) (f # rest) st' =
        (Some (Errorf_w ''error closing file: '' e), st2)"
      using i by simp
    then show ?thesis
      unfolding validate_opened [OF op to] en l by (simp add: h2 t2 t log_def)
  qed
  have "count_list ([EvOpen (filepath_Clean w path), EvTarOpen] @ tr @ [EvRead] @ tr2) EvRead
          = Suc (length pre)"
    using n n2 by simp
  moreover have "EvCheck \<notin> set ([EvOpen (filepath_Clean w path), EvTarOpen] @ tr @ [EvRead] @ tr2)"
    using c c2 by simp
  ultimately show ?thesis using v by blast
qed

lemma validate_read_fail:
  assumes ok: "range_ok ord"
    and op: "os_Open w (filepath_Clean w path) = Inr a" and to: "tar_Open a = None"
    and en: "tar_ending a \<noteq> io_EOF"
    and cl: "\<forall>f\<in>set (tar_entries a). Close f = None"
    and ac: "accepted fv (tar_entries a) s = Some s1"
  shows "\<exists>tr. validate w ord path fv s =
      \<lparr>returned = Some (Errorf_w ''error reading package: '' (tar_ending a)),
       events = tr @ [EvRead, EvTarClose, EvFileClose],
       hook_state = s1\<rparr>
    \<and> count_list tr EvRead = length (tar_entries a) \<and> EvCheck \<notin> set tr"
proof -
  let ?st0 = "\<lparr>files = [''fastly.toml'' \<mapsto> False, ''main.wasm'' \<mapsto> False],
              hstate = s, ranges = 0, trace = [EvOpen (filepath_Clean w path), EvTarOpen]\<rparr>"
  let ?fs = "tar_entries a"
  have ac': "accepted fv ?fs (hstate ?st0) = Some s1" using ac by simp
  from stream_loop_prefix [OF ok cl ac', of "tar_ending a" "[]"] obtain st' tr where
    l: "stream_loop fv ord (tar_ending a) ?fs ?st0 = stream_loop fv ord (tar_ending a) [] st'"
    and h: "hstate st' = s1"
    and t: "trace st' = trace ?st0 @ tr" and n: "count_list tr EvRead = length ?fs"
    and c: "EvCheck \<notin> set tr"
    by auto
  have l': "stream_loop fv ord (tar_ending a) ?fs ?st0 =
      (Some (Errorf_w ''error reading package: '' (tar_ending a)), log EvRead st')"
    unfolding l by (simp add: en)
  have v: "validate w ord path fv s =
      \<lparr>returned = Some (Errorf_w ''error reading package: '' (tar_ending a)),
       events = ([EvOpen (filepath_Clean w path), EvTarOpen] @ tr) @ [EvRead, EvTarClose, EvFileClose],
       hook_state = s1\<rparr>"
    unfolding validate_opened [OF op to] l' by (simp add: log_def h t)
  have "count_list ([EvOpen (filepath_Clean w path), EvTarOpen] @ tr) EvRead = length ?fs"
    using n by simp
  moreover have "EvCheck \<notin> set ([EvOpen (filepath_Clean w path), EvTarOpen] @ tr)"
    using c by simp
  ultimately show ?thesis using v by blast
qed

lemma fold_mark_hstate: "hstate (fold (mark_step n) ks st) = hstate st"
  by (induction ks arbitrary: st) (simp_all add: mark_step_def log_def)

lemma fold_mark_check:
  "EvCheck \<in> set (trace (fold (mark_step n) ks st)) \<longleftrightarrow> EvCheck \<in> set (trace st)"
  by (induction ks arbitrary: st) (simp_all add: mark_step_def log_def)

lemma fold_mark_files:
  "files st = files st' \<Longrightarrow>
   files (fold (mark_step n) ks st) = files (fold (mark_step n) ks st')"
  by (induction ks arbitrary: st st') (simp_all add: mark_step_def log_def)


lemma log_sel:
  "hstate (log ev st) = hstate st" "files (log ev st) = files st"
  "ranges (log ev st) = ranges st" "trace (log ev st) = trace st @ [ev]"
  by (simp_all add: log_def)

lemma iteration_fst:
  "fst (iteration fv ord f st) =
     (case (case fv of None \<Rightarrow> None | Some h \<Rightarrow> fst (h f (hstate st))) of
        Some err \<Rightarrow> Some err
      | None \<Rightarrow> map_option (Errorf_w ''error closing file: '') (Close f))"
  by (simp add: iteration_def call_validator_def mark_required_def fold_mark_hstate
      split: option.splits prod.splits)

lemma iteration_hstate:
  "hstate (snd (iteration fv ord f st)) =
     (case fv of None \<Rightarrow> hstate st | Some h \<Rightarrow> snd (h f (hstate st)))"
  by (auto simp: iteration_def call_validator_def mark_required_def fold_mark_hstate log_def
      split: option.splits prod.splits)

lemma iteration_check:
  "EvCheck \<in> set (trace (snd (iteration fv ord f st))) \<longleftrightarrow> EvCheck \<in> set (trace st)"
  by (auto simp: iteration_def call_validator_def mark_required_def fold_mark_check log_def
      split: option.splits prod.splits)

lemma iteration_files:
  assumes "files st = files st'" and "ranges st = ranges st'"
  shows "files (snd (iteration fv ord f st)) = files (snd (iteration fv' ord f st'))
    \<and> ranges (snd (iteration fv ord f st)) = ranges (snd (iteration fv' ord f st'))"
  using assms fold_mark_files [OF assms(1), of "Name f" "ord (ranges st')"]
  by (auto simp: iteration_def call_validator_def mark_required_def log_def
      split: option.splits prod.splits)

lemma stream_loop_None_clean:
  "fst (stream_loop fv ord ending fs st) = None \<Longrightarrow>
   ending = io_EOF \<and> (\<forall>f\<in>set fs. Close f = None) \<and> accepted fv fs (hstate st) \<noteq> None"
proof (induction fs arbitrary: st)
  case Nil
  then show ?case by (simp split: if_splits)
next
  case (Cons f fs)
  obtain r st1 where i: "iteration fv ord f (log EvRead st) = (r, st1)"
    by (cases "iteration fv ord f (log EvRead st)")
  with Cons.prems have r: "r = None" and l: "fst (stream_loop fv ord ending fs st1) = None"
    by (auto split: option.splits)
  from iteration_fst [of fv ord f "log EvRead st"] i r
  have cf: "Close f = None"
    and hf: "(case fv of None \<Rightarrow> None | Some h \<Rightarrow> fst (h f (hstate st))) = None"
    by (auto simp: log_sel split: option.splits)
  from iteration_hstate [of fv ord f "log EvRead st"] i
  have h1: "hstate st1 = (case fv of None \<Rightarrow> hstate st | Some h \<Rightarrow> snd (h f (hstate st)))"
    by (cases fv) (simp_all add: log_sel)
  from Cons.IH [OF l] have e: "ending = io_EOF" and c: "\<forall>f\<in>set fs. Close f = None"
    and a: "accepted fv fs (hstate st1) \<noteq> None"
    by simp_all
  have "accepted fv (f # fs) (hstate st) \<noteq> None"
    using a hf h1 by (auto split: option.splits prod.splits)
  with e c cf show ?case by simp
qed

lemma stream_loop_check:
  "EvCheck \<in> set (trace (snd (stream_loop fv ord ending fs st))) \<longleftrightarrow> EvCheck \<in> set (trace st)"
proof (induction fs arbitrary: st)
  case Nil
  then show ?case by (simp add: log_def)
next
  case (Cons f fs)
  obtain r st1 where i: "iteration fv ord f (log EvRead st) = (r, st1)"
    by (cases "iteration fv ord f (log EvRead st)")
  from iteration_check [of fv ord f "log EvRead st"] i
  have c: "EvCheck \<in> set (trace st1) \<longleftrightarrow> EvCheck \<in> set (trace st)"
    by (simp add: log_sel)
  show ?case
    using i c Cons.IH [of st1] by (simp split: option.splits)
qed

lemma stream_loop_nil_hook:
  "fst (stream_loop None ord ending fs st) = Some err \<Longrightarrow> \<exists>m e. err = WrapError m e"
proof (induction fs arbitrary: st)
  case Nil
  then show ?case by (auto simp: Errorf_w_def split: if_splits)
next
  case (Cons f fs)
  obtain r st1 where i: "iteration None ord f (log EvRead st) = (r, st1)"
    by (cases "iteration None ord f (log EvRead st)")
  show ?case
  proof (cases r)
    case None
    with i Cons.prems have "fst (stream_loop None ord ending fs st1) = Some err" by simp
    then show ?thesis by (rule Cons.IH)
  next
    case (Some e')
    with i Cons.prems have "err = e'" by simp
    moreover from iteration_fst [of None ord f "log EvRead st"] i Some
    have "\<exists>c. e' = Errorf_w ''error closing file: '' c" by (cases "Close f") auto
    ultimately show ?thesis by (auto simp: Errorf_w_def)
  qed
qed


lemma stream_loop_accepting:
  assumes "\<forall>f s. fst (h f s) = None"
  shows "files st = files st' \<Longrightarrow> ranges st = ranges st' \<Longrightarrow>
    fst (stream_loop (Some h) ord ending fs st) = fst (stream_loop None ord ending fs st')
    \<and> files (snd (stream_loop (Some h) ord ending fs st)) =
        files (snd (stream_loop None ord ending fs st'))
    \<and> ranges (snd (stream_loop (Some h) ord ending fs st)) =
        ranges (snd (stream_loop None ord ending fs st'))"
proof (induction fs arbitrary: st st')
  case Nil
  then show ?case by (simp add: log_sel)
next
  case (Cons f fs)
  obtain r st1 where i: "iteration (Some h) ord f (log EvRead st) = (r, st1)"
    by (cases "iteration (Some h) ord f (log EvRead st)")
  obtain r' st1' where i': "iteration None ord f (log EvRead st') = (r', st1')"
    by (cases "iteration None ord f (log EvRead st')")
  have "fst (iteration (Some h) ord f (log EvRead st)) = fst (iteration None ord f (log EvRead st'))"
    unfolding iteration_fst using assms by simp
  with i i' have r: "r' = r" by simp
  have "files (log EvRead st) = files (log EvRead st')" "ranges (log EvRead st) = ranges (log EvRead st')"
    using Cons.prems by (simp_all add: log_sel)
  from iteration_files [OF this, of "Some h" ord f None] i i'
  have fr: "files st1 = files st1'" "ranges st1 = ranges st1'" by simp_all
  show ?case
  proof (cases r)
    case None
    with i i' r Cons.IH [OF fr] show ?thesis by simp
  next
    case (Some e)
    with i i' r fr show ?thesis by simp
  qed
qed

lemma stream_loop_order:
  "hstate st1 = hstate st2 \<Longrightarrow>
   fst (stream_loop fv ord1 ending fs st1) = fst (stream_loop fv ord2 ending fs st2)"
proof (induction fs arbitrary: st1 st2)
  case Nil
  then show ?case by simp
next
  case (Cons f fs)
  obtain r1 t1 where i1: "iteration fv ord1 f (log EvRead st1) = (r1, t1)"
    by (cases "iteration fv ord1 f (log EvRead st1)")
  obtain r2 t2 where i2: "iteration fv ord2 f (log EvRead st2) = (r2, t2)"
    by (cases "iteration fv ord2 f (log EvRead st2)")
  have hl: "hstate (log EvRead st1) = hstate (log EvRead st2)"
    using Cons.prems by (simp add: log_sel)
  have "fst (iteration fv ord1 f (log EvRead st1)) = fst (iteration fv ord2 f (log EvRead st2))"
    unfolding iteration_fst hl by (rule refl)
  with i1 i2 have r: "r2 = r1" by simp
  have "hstate (snd (iteration fv ord1 f (log EvRead st1))) =
        hstate (snd (iteration fv ord2 f (log EvRead st2)))"
    unfolding iteration_hstate hl by (rule refl)
  with i1 i2 have h: "hstate t1 = hstate t2" by simp
  show ?case
  proof (cases r1)
    case None
    with i1 i2 r Cons.IH [OF h] show ?thesis by simp
  next
    case (Some e)
    with i1 i2 r show ?thesis by simp
  qed
qed

lemma validate_returned:
  assumes "os_Open w (filepath_Clean w path) = Inr a" and "tar_Open a = None"
    and "stream_loop fv ord (tar_ending a) (tar_entries a)
             \<lparr>files = [''fastly.toml'' \<mapsto> False, ''main.wasm'' \<mapsto> False],
              hstate = s, ranges = 0, trace = [EvOpen (filepath_Clean w path), EvTarOpen]\<rparr>
         = (r, st)"
  shows "returned (validate w ord path fv s) =
     (case r of Some err \<Rightarrow> Some err
      | None \<Rightarrow> check_required (ord (ranges st)) (files st))"
    and "EvCheck \<in> set (events (validate w ord path fv s)) \<longleftrightarrow> r = None"
proof -
  from stream_loop_check [of fv ord "tar_ending a" "tar_entries a"
      "\<lparr>files = [''fastly.toml'' \<mapsto> False, ''main.wasm'' \<mapsto> False],
              hstate = s, ranges = 0, trace = [EvOpen (filepath_Clean w path), EvTarOpen]\<rparr>"]
  have c: "EvCheck \<notin> set (trace st)" using assms(3) by simp
  show "returned (validate w ord path fv s) =
     (case r of Some err \<Rightarrow> Some err
      | None \<Rightarrow> check_required (ord (ranges st)) (files st))"
    unfolding validate_opened [OF assms(1,2)] assms(3) by (simp split: option.splits)
  show "EvCheck \<in> set (events (validate w ord path fv s)) \<longleftrightarrow> r = None"
    unfolding validate_opened [OF assms(1,2)] assms(3) using c by (simp split: option.splits)
qed

lemma validate_not_opened:
  "os_Open w (filepath_Clean w path) = Inl e \<Longrightarrow>
   validate w ord path fv s =
     \<lparr>returned = Some (Errorf_w ''error reading package: '' e),
      events = [EvOpen (filepath_Clean w path)], hook_state = s\<rparr>"
  "os_Open w (filepath_Clean w path) = Inr a \<Longrightarrow> tar_Open a = Some e \<Longrightarrow>
   validate w ord path fv s =
     \<lparr>returned = Some (Errorf_w ''error unarchiving package: '' e),
      events = [EvOpen (filepath_Clean w path), EvTarOpen, EvFileClose], hook_state = s\<rparr>"
  by (simp_all add: validate_def Let_def)


lemma range_ok_orders: "range_ok fastly_first" "range_ok wasm_first"
  by (auto simp: range_ok_def fastly_first_def wasm_first_def)

lemma validate_clean_cases:
  assumes ok: "range_ok ord"
    and op: "os_Open w (filepath_Clean w path) = Inr a" and to: "tar_Open a = None"
    and en: "tar_ending a = io_EOF"
    and cl: "\<forall>f\<in>set (tar_entries a). Close f = None"
    and ac: "accepted fv (tar_entries a) s \<noteq> None"
  shows "returned (validate w ord path fv s) =
      (if ''fastly.toml'' \<in> Name ` set (tar_entries a)
       then if ''main.wasm'' \<in> Name ` set (tar_entries a) then None
            else Some (Errorf_missing ''main.wasm'')
       else if ''main.wasm'' \<in> Name ` set (tar_entries a)
            then Some (Errorf_missing ''fastly.toml'')
            else Some (Errorf_missing (hd (ord (length (tar_entries a))))))"
proof -
  from ac obtain s1 where "accepted fv (tar_entries a) s = Some s1" by auto
  from validate_clean [OF ok op to en cl this]
  have r: "returned (validate w ord path fv s) =
      (case filter (\<lambda>k. k \<notin> Name ` set (tar_entries a)) (ord (length (tar_entries a))) of
         [] \<Rightarrow> None | k # _ \<Rightarrow> Some (Errorf_missing k))"
    by simp
  from range_two [OF ok, of "length (tar_entries a)"] show ?thesis
    unfolding r by auto
qed

lemma accepted_None: "accepted None fs s = Some s"
  by (induction fs) simp_all

lemmas run_defs =
  validate_def iteration_def mark_required_def mark_step_def call_validator_def log_def
  Errorf_w_def Errorf_missing_def io_EOF_def

lemma mark_required_other:
  "name \<noteq> k \<Longrightarrow> files (mark_required ord name st) k = files st k"
proof -
  have "name \<noteq> k \<Longrightarrow> files (fold (mark_step name) ks st) k = files st k" for ks
    by (induction ks arbitrary: st) (simp_all add: mark_step_def log_def)
  then show "name \<noteq> k \<Longrightarrow> files (mark_required ord name st) k = files st k"
    by (simp add: mark_required_def)
qed

lemma fold_mark_marks:
  "set (trace (fold (mark_step n) ks st)) \<subseteq> set (trace st) \<union> {EvMark n}"
proof (induction ks arbitrary: st)
  case Nil
  then show ?case by auto
next
  case (Cons k ks)
  have "set (trace (mark_step n k st)) \<subseteq> set (trace st) \<union> {EvMark n}"
    by (auto simp: mark_step_def log_def)
  with Cons.IH [of "mark_step n k st"] show ?case by auto
qed

lemma iteration_marks:
  "EvMark k \<in> set (trace (snd (iteration fv ord f st))) \<Longrightarrow>
   EvMark k \<in> set (trace st) \<or> k = Name f"
  using fold_mark_marks [of "Name f" "ord (ranges st)" st]
  by (auto simp: iteration_def call_validator_def mark_required_def log_def
      split: option.splits prod.splits)

lemma stream_loop_marks:
  "EvMark k \<in> set (trace (snd (stream_loop fv ord ending fs st))) \<Longrightarrow>
   EvMark k \<in> set (trace st) \<or> k \<in> Name ` set fs"
proof (induction fs arbitrary: st)
  case Nil
  then show ?case by (simp add: log_sel split: if_splits)
next
  case (Cons f fs)
  obtain r st1 where i: "iteration fv ord f (log EvRead st) = (r, st1)"
    by (cases "iteration fv ord f (log EvRead st)")
  have m1: "EvMark k \<in> set (trace st1) \<Longrightarrow> EvMark k \<in> set (trace st) \<or> k = Name f"
    using iteration_marks [of k fv ord f "log EvRead st"] i by (simp add: log_sel)
  show ?case
  proof (cases r)
    case None
    with i Cons.prems have "EvMark k \<in> set (trace (snd (stream_loop fv ord ending fs st1)))"
      by simp
    from Cons.IH [OF this] m1 show ?thesis by auto
  next
    case (Some e)
    with i Cons.prems have "EvMark k \<in> set (trace st1)" by simp
    with m1 show ?thesis by auto
  qed
qed

lemma validate_marks:
  assumes "os_Open w (filepath_Clean w path) = Inr a" and "tar_Open a = None"
    and "EvMark k \<in> set (events (validate w ord path fv s))"
  shows "k \<in> Name ` set (tar_entries a)"
proof -
  let ?st0 = "\<lparr>files = [''fastly.toml'' \<mapsto> False, ''main.wasm'' \<mapsto> False],
              hstate = s, ranges = 0, trace = [EvOpen (filepath_Clean w path), EvTarOpen]\<rparr>"
  obtain r st where l: "stream_loop fv ord (tar_ending a) (tar_entries a) ?st0 = (r, st)"
    by (cases "stream_loop fv ord (tar_ending a) (tar_entries a) ?st0")
  from assms(3) have "EvMark k \<in> set (trace st)"
    unfolding validate_opened [OF assms(1,2)] l by (cases r) simp_all
  with stream_loop_marks [of k fv ord "tar_ending a" "tar_entries a" ?st0] l
  show ?thesis by simp
qed


section \<open>The claims\<close>

subsection \<open>C1: a missing required file is reported\<close>

text \<open>
  C1, as it is stated, asks that every missing name is reported when more than one
  required entry is missing. The package with no entry at all misses both names, and
  the error that \<^verbatim>\<open>validate\<close> returns carries one of them only: the loop of lines 130
  to 134 returns at the first key whose flag is false. With \<^verbatim>\<open>fastly.toml\<close> first in
  the \<^verbatim>\<open>range\<close> order the message does not mention \<^verbatim>\<open>main.wasm\<close>, with \<^verbatim>\<open>main.wasm\<close>
  first it does not mention \<^verbatim>\<open>fastly.toml\<close>.
\<close>

theorem missing_both_reports_one_name:
  "returned (validate (package [] io_EOF) fastly_first ''pkg.tar.gz'' None ()) =
     Some (ErrorString ''error validating package: package must contain a fastly.toml file'')
   \<and> \<not> sublist ''main.wasm'' ''error validating package: package must contain a fastly.toml file''
   \<and> returned (validate (package [] io_EOF) wasm_first ''pkg.tar.gz'' None ()) =
     Some (ErrorString ''error validating package: package must contain a main.wasm file'')
   \<and> \<not> sublist ''fastly.toml'' ''error validating package: package must contain a main.wasm file''"
proof -
  have "\<not> sublist ''main.wasm'' ''error validating package: package must contain a fastly.toml file''"
    by code_simp
  moreover
  have "\<not> sublist ''fastly.toml'' ''error validating package: package must contain a main.wasm file''"
    by code_simp
  moreover
  have "returned (validate (package [] io_EOF) fastly_first ''pkg.tar.gz'' None ()) =
     Some (ErrorString ''error validating package: package must contain a fastly.toml file'')"
    by (simp add: validate_def package_def fastly_first_def log_def Errorf_missing_def)
  moreover
  have "returned (validate (package [] io_EOF) wasm_first ''pkg.tar.gz'' None ()) =
     Some (ErrorString ''error validating package: package must contain a main.wasm file'')"
    by (simp add: validate_def package_def wasm_first_def log_def Errorf_missing_def)
  ultimately show ?thesis by blast
qed

text \<open>
  C1, amended. For every package that opens and streams to the end without an error
  (every read up to \<^verbatim>\<open>io.EOF\<close> succeeds, the validator, if there is one, rejects no
  entry, every entry closes cleanly) and that misses at least one required name,
  \<^verbatim>\<open>validate\<close> returns the missing-file error with one name in it: the missing name
  when one is missing, and when both are missing the one that the \<^verbatim>\<open>range\<close> statement
  of line 130 yields first.
\<close>

theorem missing_required_reports_one:
  assumes "range_ok ord"
    and "os_Open w (filepath_Clean w path) = Inr a" and "tar_Open a = None"
    and "tar_ending a = io_EOF"
    and "\<forall>f\<in>set (tar_entries a). Close f = None"
    and "accepted fv (tar_entries a) s \<noteq> None"
    and "\<not> (''fastly.toml'' \<in> Name ` set (tar_entries a) \<and> ''main.wasm'' \<in> Name ` set (tar_entries a))"
  shows "(''fastly.toml'' \<in> Name ` set (tar_entries a) \<longrightarrow>
            returned (validate w ord path fv s) = Some (Errorf_missing ''main.wasm''))
       \<and> (''main.wasm'' \<in> Name ` set (tar_entries a) \<longrightarrow>
            returned (validate w ord path fv s) = Some (Errorf_missing ''fastly.toml''))
       \<and> (''fastly.toml'' \<notin> Name ` set (tar_entries a) \<and> ''main.wasm'' \<notin> Name ` set (tar_entries a) \<longrightarrow>
            returned (validate w ord path fv s) = Some (Errorf_missing (hd (ord (length (tar_entries a))))))"
  using assms(7) unfolding validate_clean_cases [OF assms(1-6)] by simp

text \<open>C1 at three packages: only \<^verbatim>\<open>fastly.toml\<close>; \<^verbatim>\<open>main.wasm\<close> and a readme; only a
  readme, with \<^verbatim>\<open>main.wasm\<close> first in the \<^verbatim>\<open>range\<close> order.\<close>

theorem missing_required_reports_one_witness:
  "returned (validate (package [entry ''fastly.toml''] io_EOF) wasm_first ''pkg.tar.gz'' None ())
     = Some (Errorf_missing ''main.wasm'')
   \<and> returned (validate (package [entry ''main.wasm'', entry ''README.md''] io_EOF) fastly_first
         ''pkg.tar.gz'' None ())
     = Some (Errorf_missing ''fastly.toml'')
   \<and> returned (validate (package [entry ''README.md''] io_EOF) wasm_first ''pkg.tar.gz'' None ())
     = Some (Errorf_missing ''main.wasm'')"
  using
    missing_required_reports_one [of wasm_first "package [entry ''fastly.toml''] io_EOF"
      "''pkg.tar.gz''" "\<lparr>tar_Open = None, tar_entries = [entry ''fastly.toml''], tar_ending = io_EOF\<rparr>"
      None "()"]
    missing_required_reports_one [of fastly_first
      "package [entry ''main.wasm'', entry ''README.md''] io_EOF"
      "''pkg.tar.gz''"
      "\<lparr>tar_Open = None, tar_entries = [entry ''main.wasm'', entry ''README.md''], tar_ending = io_EOF\<rparr>"
      None "()"]
    missing_required_reports_one [of wasm_first "package [entry ''README.md''] io_EOF"
      "''pkg.tar.gz''" "\<lparr>tar_Open = None, tar_entries = [entry ''README.md''], tar_ending = io_EOF\<rparr>"
      None "()"]
  by (simp add: range_ok_orders package_def entry_def wasm_first_def)

subsection \<open>C2: a package with both required files passes\<close>

text \<open>
  C2, as it is stated, promises success for every archive whose entries include
  \<^verbatim>\<open>fastly.toml\<close> and \<^verbatim>\<open>main.wasm\<close>. Two packages hold both entries and fail: one whose
  stream breaks off after them with a read error (line 107 returns it), and one whose
  \<^verbatim>\<open>main.wasm\<close> entry does not close cleanly (line 125 returns that).
\<close>

theorem both_present_but_stream_fails:
  "returned (validate (package [entry ''fastly.toml'', entry ''main.wasm'']
                 (ErrorString ''unexpected EOF'')) fastly_first ''pkg.tar.gz'' None ())
     = Some (WrapError ''error reading package: unexpected EOF'' (ErrorString ''unexpected EOF''))
   \<and> returned (validate (package [entry ''fastly.toml'', broken_entry ''main.wasm''] io_EOF)
                 fastly_first ''pkg.tar.gz'' None ())
     = Some (WrapError ''error closing file: close failed'' (ErrorString ''close failed''))"
  by (simp add: run_defs package_def entry_def broken_entry_def fastly_first_def)

text \<open>
  C2, amended. For every package that opens and streams to \<^verbatim>\<open>io.EOF\<close> without a read
  error, whose entries all close cleanly, and which has an entry named exactly
  \<^verbatim>\<open>fastly.toml\<close> and one named exactly \<^verbatim>\<open>main.wasm\<close>, whatever else it holds and in
  whatever order, \<^verbatim>\<open>validate\<close> with a \<^verbatim>\<open>nil\<close> validator returns \<^verbatim>\<open>nil\<close>.
\<close>

theorem both_required_present_succeeds:
  assumes "range_ok ord"
    and "os_Open w (filepath_Clean w path) = Inr a" and "tar_Open a = None"
    and "tar_ending a = io_EOF"
    and "\<forall>f\<in>set (tar_entries a). Close f = None"
    and "''fastly.toml'' \<in> Name ` set (tar_entries a)"
    and "''main.wasm'' \<in> Name ` set (tar_entries a)"
  shows "returned (validate w ord path None s) = None"
proof -
  have "accepted None (tar_entries a) s \<noteq> None"
    by (simp add: accepted_None)
  from validate_clean_cases [OF assms(1-5) this] assms(6,7) show ?thesis
    by simp
qed

text \<open>C2 at a package with a readme first and the two required files in reverse order.\<close>

theorem both_required_present_succeeds_witness:
  "returned (validate (package [entry ''README.md'', entry ''main.wasm'', entry ''fastly.toml''] io_EOF)
      wasm_first ''pkg.tar.gz'' None ()) = None"
  by (rule both_required_present_succeeds
        [where a = "\<lparr>tar_Open = None,
             tar_entries = [entry ''README.md'', entry ''main.wasm'', entry ''fastly.toml''],
             tar_ending = io_EOF\<rparr>"])
     (simp_all add: range_ok_orders package_def entry_def)

subsection \<open>C3: a rejecting validator ends the call\<close>

text \<open>
  C3. Let the validator be called on the entry \<open>f\<close> that follows the entries \<open>pre\<close>
  (they were accepted and closed cleanly, so the loop has come this far), and let it
  answer with the error \<open>e\<close>. Then \<^verbatim>\<open>validate\<close> returns exactly \<open>e\<close>; after the call of
  the validator the only outside calls are the close of \<open>f\<close> and the two deferred closes;
  \<^verbatim>\<open>tar.Read\<close> has been called once for each entry up to \<open>f\<close> and never again; and the
  loop over the required names has not run, so nothing is said about missing files.
\<close>

theorem validator_error_aborts:
  assumes "range_ok ord"
    and "os_Open w (filepath_Clean w path) = Inr a" and "tar_Open a = None"
    and "tar_entries a = pre @ f # rest"
    and "\<forall>g\<in>set pre. Close g = None"
    and "accepted (Some h) pre s = Some s1"
    and "h f s1 = (Some e, s2)"
  shows "returned (validate w ord path (Some h) s) = Some e
    \<and> (\<exists>tr. events (validate w ord path (Some h) s) =
               tr @ [EvHook f, EvClose f, EvTarClose, EvFileClose])
    \<and> count_list (events (validate w ord path (Some h) s)) EvRead = Suc (length pre)
    \<and> EvCheck \<notin> set (events (validate w ord path (Some h) s))"
proof -
  from validate_reject [OF assms] obtain tr where
    "validate w ord path (Some h) s =
      \<lparr>returned = Some e, events = tr @ [EvHook f, EvClose f, EvTarClose, EvFileClose],
       hook_state = s2\<rparr>"
    and "count_list tr EvRead = Suc (length pre)" and "EvCheck \<notin> set tr"
    by blast
  then show ?thesis by simp
qed

text \<open>C3 at a package with \<^verbatim>\<open>secret.key\<close> between the two required files and a validator
  that rejects that name: two reads, the third entry is never asked for.\<close>

theorem validator_error_aborts_witness:
  "returned (validate
      (package [entry ''fastly.toml'', entry ''secret.key'', entry ''main.wasm''] io_EOF)
      fastly_first ''pkg.tar.gz'' (Some reject_secret) 0)
     = Some (ErrorString ''package contains secret.key'')
   \<and> (\<exists>tr. events (validate
      (package [entry ''fastly.toml'', entry ''secret.key'', entry ''main.wasm''] io_EOF)
      fastly_first ''pkg.tar.gz'' (Some reject_secret) 0) =
               tr @ [EvHook (entry ''secret.key''), EvClose (entry ''secret.key''),
                     EvTarClose, EvFileClose])
   \<and> count_list (events (validate
      (package [entry ''fastly.toml'', entry ''secret.key'', entry ''main.wasm''] io_EOF)
      fastly_first ''pkg.tar.gz'' (Some reject_secret) 0)) EvRead = Suc (length [entry ''fastly.toml''])
   \<and> EvCheck \<notin> set (events (validate
      (package [entry ''fastly.toml'', entry ''secret.key'', entry ''main.wasm''] io_EOF)
      fastly_first ''pkg.tar.gz'' (Some reject_secret) 0))"
  by (rule validator_error_aborts
        [where a = "\<lparr>tar_Open = None,
             tar_entries = [entry ''fastly.toml'', entry ''secret.key'', entry ''main.wasm''],
             tar_ending = io_EOF\<rparr>"
           and rest = "[entry ''main.wasm'']" and ?s1.0 = "Suc 0" and ?s2.0 = "Suc (Suc 0)"])
     (simp_all add: range_ok_orders package_def entry_def reject_secret_def)

subsection \<open>C4: which name is matched\<close>

text \<open>
  C4, as it is stated, takes the full name of an entry for the string that line 112
  compares, so that \<^verbatim>\<open>subdir/main.wasm\<close> would not count as \<^verbatim>\<open>main.wasm\<close>. Line 112
  compares with \<^verbatim>\<open>f.Name()\<close>, and for the tar entry \<^verbatim>\<open>subdir/main.wasm\<close> that is
  \<^verbatim>\<open>main.wasm\<close>: the package of \<^verbatim>\<open>subdir/main.wasm\<close> and \<^verbatim>\<open>fastly.toml\<close> sets the flag of
  \<^verbatim>\<open>main.wasm\<close> and \<^verbatim>\<open>validate\<close> returns \<^verbatim>\<open>nil\<close>.
\<close>

theorem nested_main_wasm_is_accepted:
  "Header_Name (tar_file ''subdir/main.wasm'') = ''subdir/main.wasm''
   \<and> Name (tar_file ''subdir/main.wasm'') = ''main.wasm''
   \<and> EvMark ''main.wasm'' \<in> set (events (validate
         (package [tar_file ''subdir/main.wasm'', tar_file ''fastly.toml''] io_EOF)
         fastly_first ''pkg.tar.gz'' None ()))
   \<and> returned (validate
         (package [tar_file ''subdir/main.wasm'', tar_file ''fastly.toml''] io_EOF)
         fastly_first ''pkg.tar.gz'' None ()) = None"
  by (simp add: run_defs package_def tar_file_def path_Base_def fastly_first_def)

text \<open>
  C4, amended. The match is string equality, with no folding of case and no pattern,
  between the required name and the base name of the entry, the last element of its
  path: an entry marks \<^verbatim>\<open>main.wasm\<close> when its base name is exactly \<^verbatim>\<open>main.wasm\<close>, in
  whatever directory of the archive it lies, and leaves the flag alone otherwise. So a
  package that streams to the end without error passes exactly when some entry has the
  base name \<^verbatim>\<open>fastly.toml\<close> and some entry the base name \<^verbatim>\<open>main.wasm\<close>, and with the first
  but not the second it fails with the error that names \<^verbatim>\<open>main.wasm\<close>.
\<close>

theorem base_name_matching:
  assumes "range_ok ord"
    and "os_Open w (filepath_Clean w path) = Inr a" and "tar_Open a = None"
    and "tar_ending a = io_EOF"
    and "\<forall>f\<in>set (tar_entries a). Close f = None"
    and "accepted fv (tar_entries a) s \<noteq> None"
    and "\<forall>f\<in>set (tar_entries a). tar_named f"
  shows "(\<forall>f st. tar_named f \<longrightarrow>
            files (mark_required ord (Name f) st) ''main.wasm'' =
              (if path_Base (Header_Name f) = ''main.wasm'' then Some True
               else files st ''main.wasm''))
    \<and> (returned (validate w ord path fv s) = None \<longleftrightarrow>
          (\<exists>f\<in>set (tar_entries a). path_Base (Header_Name f) = ''fastly.toml'')
          \<and> (\<exists>f\<in>set (tar_entries a). path_Base (Header_Name f) = ''main.wasm''))
    \<and> ((\<exists>f\<in>set (tar_entries a). path_Base (Header_Name f) = ''fastly.toml'')
          \<and> (\<forall>f\<in>set (tar_entries a). path_Base (Header_Name f) \<noteq> ''main.wasm'') \<longrightarrow>
        returned (validate w ord path fv s) = Some (Errorf_missing ''main.wasm''))"
proof -
  have n: "k \<in> Name ` set (tar_entries a) \<longleftrightarrow>
      (\<exists>f\<in>set (tar_entries a). path_Base (Header_Name f) = k)" for k
    using assms(7) by (auto simp: tar_named_def image_iff)
  have m: "files (mark_required ord (Name f) st) ''main.wasm'' =
      (if path_Base (Header_Name f) = ''main.wasm'' then Some True else files st ''main.wasm'')"
    if "tar_named f" for f and st :: "'b state"
    using that by (simp add: mark_required_eq [OF assms(1)] tar_named_def)
  have r: "returned (validate w ord path fv s) =
      (if \<exists>f\<in>set (tar_entries a). path_Base (Header_Name f) = ''fastly.toml''
       then if \<exists>f\<in>set (tar_entries a). path_Base (Header_Name f) = ''main.wasm'' then None
            else Some (Errorf_missing ''main.wasm'')
       else if \<exists>f\<in>set (tar_entries a). path_Base (Header_Name f) = ''main.wasm''
            then Some (Errorf_missing ''fastly.toml'')
            else Some (Errorf_missing (hd (ord (length (tar_entries a))))))"
    unfolding validate_clean_cases [OF assms(1-6)] n by (rule refl)
  have r1: "returned (validate w ord path fv s) = None \<longleftrightarrow>
          (\<exists>f\<in>set (tar_entries a). path_Base (Header_Name f) = ''fastly.toml'')
          \<and> (\<exists>f\<in>set (tar_entries a). path_Base (Header_Name f) = ''main.wasm'')"
    unfolding r by simp
  have r2: "returned (validate w ord path fv s) = Some (Errorf_missing ''main.wasm'')"
    if "\<exists>f\<in>set (tar_entries a). path_Base (Header_Name f) = ''fastly.toml''"
      and "\<forall>f\<in>set (tar_entries a). path_Base (Header_Name f) \<noteq> ''main.wasm''"
    unfolding r using that by simp
  from m r1 r2 show ?thesis by blast
qed

text \<open>C4 at two packages: \<^verbatim>\<open>main.wasm\<close> in a subdirectory beside \<^verbatim>\<open>fastly.toml\<close>, which
  passes, and \<^verbatim>\<open>Main.wasm\<close> and \<^verbatim>\<open>bin/main.wasm.bak\<close> beside \<^verbatim>\<open>fastly.toml\<close>, which fails
  for want of \<^verbatim>\<open>main.wasm\<close>.\<close>

theorem base_name_matching_witness:
  "returned (validate
      (package [tar_file ''pkg/bin/main.wasm'', tar_file ''pkg/fastly.toml''] io_EOF)
      wasm_first ''pkg.tar.gz'' None ()) = None
   \<and> returned (validate
      (package [tar_file ''Main.wasm'', tar_file ''bin/main.wasm.bak'', tar_file ''fastly.toml'']
         io_EOF)
      wasm_first ''pkg.tar.gz'' None ()) = Some (Errorf_missing ''main.wasm'')"
proof -
  let ?a1 = "\<lparr>tar_Open = None,
       tar_entries = [tar_file ''pkg/bin/main.wasm'', tar_file ''pkg/fastly.toml''],
       tar_ending = io_EOF\<rparr>"
  let ?a2 = "\<lparr>tar_Open = None,
       tar_entries = [tar_file ''Main.wasm'', tar_file ''bin/main.wasm.bak'',
                      tar_file ''fastly.toml''],
       tar_ending = io_EOF\<rparr>"
  let ?w1 = "package [tar_file ''pkg/bin/main.wasm'', tar_file ''pkg/fastly.toml''] io_EOF"
  let ?w2 = "package [tar_file ''Main.wasm'', tar_file ''bin/main.wasm.bak'',
                      tar_file ''fastly.toml''] io_EOF"
  have b: "path_Base ''pkg/bin/main.wasm'' = ''main.wasm''"
    "path_Base ''pkg/fastly.toml'' = ''fastly.toml''"
    "path_Base ''Main.wasm'' = ''Main.wasm''"
    "path_Base ''bin/main.wasm.bak'' = ''main.wasm.bak''"
    "path_Base ''fastly.toml'' = ''fastly.toml''"
    by (simp_all add: path_Base_def)
  have h1: "range_ok wasm_first" "os_Open ?w1 (filepath_Clean ?w1 ''pkg.tar.gz'') = Inr ?a1"
    "tar_Open ?a1 = None" "tar_ending ?a1 = io_EOF" "\<forall>f\<in>set (tar_entries ?a1). Close f = None"
    "accepted None (tar_entries ?a1) () \<noteq> None" "\<forall>f\<in>set (tar_entries ?a1). tar_named f"
    by (simp_all add: range_ok_orders package_def tar_file_def tar_named_def)
  have h2: "range_ok wasm_first" "os_Open ?w2 (filepath_Clean ?w2 ''pkg.tar.gz'') = Inr ?a2"
    "tar_Open ?a2 = None" "tar_ending ?a2 = io_EOF" "\<forall>f\<in>set (tar_entries ?a2). Close f = None"
    "accepted None (tar_entries ?a2) () \<noteq> None" "\<forall>f\<in>set (tar_entries ?a2). tar_named f"
    by (simp_all add: range_ok_orders package_def tar_file_def tar_named_def)
  have e1: "(\<exists>f\<in>set (tar_entries ?a1). path_Base (Header_Name f) = ''fastly.toml'')
      \<and> (\<exists>f\<in>set (tar_entries ?a1). path_Base (Header_Name f) = ''main.wasm'')"
    by (simp add: tar_file_def b)
  have e2: "(\<exists>f\<in>set (tar_entries ?a2). path_Base (Header_Name f) = ''fastly.toml'')
      \<and> (\<forall>f\<in>set (tar_entries ?a2). path_Base (Header_Name f) \<noteq> ''main.wasm'')"
    by (simp add: tar_file_def b)
  from base_name_matching [OF h1, THEN conjunct2, THEN conjunct1] e1
  have "returned (validate ?w1 wasm_first ''pkg.tar.gz'' None ()) = None"
    by (rule iffD2)
  moreover from base_name_matching [OF h2, THEN conjunct2, THEN conjunct2] e2
  have "returned (validate ?w2 wasm_first ''pkg.tar.gz'' None ()) =
      Some (Errorf_missing ''main.wasm'')"
    by (rule mp)
  ultimately show ?thesis by (rule conjI)
qed

subsection \<open>C5: a read error ends the call\<close>

text \<open>
  C5. Let the stream of a package end with an error other than \<^verbatim>\<open>io.EOF\<close>. Then
  \<^verbatim>\<open>validate\<close> fails, and the loop over the required names is never reached, whatever
  the validator and the closes do; with a \<^verbatim>\<open>nil\<close> validator the error returned is never a
  missing-file error. When the entries before the failing read pass (none is rejected,
  each closes cleanly), the error returned is the read error, wrapped by line 108, and
  the failing \<^verbatim>\<open>tar.Read\<close> is the last call before the deferred closes.
\<close>

theorem read_error_aborts:
  assumes "os_Open w (filepath_Clean w path) = Inr a" and "tar_Open a = None"
    and "tar_ending a \<noteq> io_EOF"
  shows "returned (validate w ord path fv s) \<noteq> None
    \<and> EvCheck \<notin> set (events (validate w ord path fv s))
    \<and> (fv = None \<longrightarrow> (\<forall>k. returned (validate w ord path fv s) \<noteq> Some (Errorf_missing k)))
    \<and> (range_ok ord \<and> (\<forall>f\<in>set (tar_entries a). Close f = None)
          \<and> accepted fv (tar_entries a) s \<noteq> None \<longrightarrow>
        returned (validate w ord path fv s) =
          Some (Errorf_w ''error reading package: '' (tar_ending a))
        \<and> (\<exists>tr. events (validate w ord path fv s) = tr @ [EvRead, EvTarClose, EvFileClose]
              \<and> count_list tr EvRead = length (tar_entries a)))"
proof -
  let ?st0 = "\<lparr>files = [''fastly.toml'' \<mapsto> False, ''main.wasm'' \<mapsto> False],
              hstate = s, ranges = 0, trace = [EvOpen (filepath_Clean w path), EvTarOpen]\<rparr>"
  obtain r st where l: "stream_loop fv ord (tar_ending a) (tar_entries a) ?st0 = (r, st)"
    by (cases "stream_loop fv ord (tar_ending a) (tar_entries a) ?st0")
  from stream_loop_None_clean [of fv ord "tar_ending a" "tar_entries a" ?st0] l assms(3)
  obtain err where r: "r = Some err" by (cases r) auto
  from validate_returned [OF assms(1,2) l]
  have v: "returned (validate w ord path fv s) = Some err"
    and c: "EvCheck \<notin> set (events (validate w ord path fv s))"
    by (simp_all add: r)
  have n: "\<forall>k. returned (validate w ord path fv s) \<noteq> Some (Errorf_missing k)" if "fv = None"
  proof -
    from stream_loop_nil_hook [of ord "tar_ending a" "tar_entries a" ?st0 err] l r that
    obtain m e where "err = WrapError m e" by auto
    with v show ?thesis by (simp add: Errorf_missing_def)
  qed
  have p: "returned (validate w ord path fv s) =
          Some (Errorf_w ''error reading package: '' (tar_ending a))
        \<and> (\<exists>tr. events (validate w ord path fv s) = tr @ [EvRead, EvTarClose, EvFileClose]
              \<and> count_list tr EvRead = length (tar_entries a))"
    if ok: "range_ok ord" and cl: "\<forall>f\<in>set (tar_entries a). Close f = None"
      and ac: "accepted fv (tar_entries a) s \<noteq> None"
  proof -
    from ac obtain s1 where "accepted fv (tar_entries a) s = Some s1" by auto
    from validate_read_fail [OF ok assms(1,2,3) cl this] obtain tr where
      "validate w ord path fv s =
        \<lparr>returned = Some (Errorf_w ''error reading package: '' (tar_ending a)),
         events = tr @ [EvRead, EvTarClose, EvFileClose], hook_state = s1\<rparr>"
      and "count_list tr EvRead = length (tar_entries a)"
      by blast
    then show ?thesis by simp
  qed
  from v c n p show ?thesis by simp
qed

text \<open>C5 at a package that is cut off after \<^verbatim>\<open>fastly.toml\<close>.\<close>

theorem read_error_aborts_witness:
  "returned (validate (package [entry ''fastly.toml''] (ErrorString ''unexpected EOF''))
       fastly_first ''pkg.tar.gz'' None ())
     = Some (WrapError ''error reading package: unexpected EOF'' (ErrorString ''unexpected EOF''))
   \<and> EvCheck \<notin> set (events (validate (package [entry ''fastly.toml''] (ErrorString ''unexpected EOF''))
       fastly_first ''pkg.tar.gz'' None ()))
   \<and> (\<forall>k. returned (validate (package [entry ''fastly.toml''] (ErrorString ''unexpected EOF''))
       fastly_first ''pkg.tar.gz'' None ()) \<noteq> Some (Errorf_missing k))
   \<and> (\<exists>tr. events (validate (package [entry ''fastly.toml''] (ErrorString ''unexpected EOF''))
       fastly_first ''pkg.tar.gz'' None ()) = tr @ [EvRead, EvTarClose, EvFileClose]
         \<and> count_list tr EvRead = 1)"
  using read_error_aborts
        [where a = "\<lparr>tar_Open = None, tar_entries = [entry ''fastly.toml''],
             tar_ending = ErrorString ''unexpected EOF''\<rparr>"
           and w = "package [entry ''fastly.toml''] (ErrorString ''unexpected EOF'')"
           and ord = fastly_first and path = "''pkg.tar.gz''" and fv = None and s = "()"]
  by (simp add: range_ok_orders package_def entry_def io_EOF_def Errorf_w_def Errorf_missing_def)

subsection \<open>C6: failures of opening\<close>

text \<open>
  C6, as it is stated, gives the unarchive error to every opened file that is not a
  valid gzipped tar. \<^verbatim>\<open>tar.Open\<close> only sets up the gzip reader; a file that is valid gzip
  and holds something other than a tar archive passes it, and the first \<^verbatim>\<open>tar.Read\<close>
  fails. What \<^verbatim>\<open>validate\<close> returns then is the error of line 108, with the words of a
  read error, not the error of line 93.
\<close>

theorem gzip_not_tar_is_a_read_error:
  "returned (validate (package [] (ErrorString ''archive/tar: invalid tar header''))
      fastly_first ''notes.txt.gz'' None ())
     = Some (WrapError ''error reading package: archive/tar: invalid tar header''
               (ErrorString ''archive/tar: invalid tar header''))"
  by (simp add: run_defs package_def)

text \<open>
  C6, amended. When \<^verbatim>\<open>os.Open\<close> fails with \<open>e\<close>, \<^verbatim>\<open>validate\<close> returns \<open>e\<close> wrapped by line
  86 and has called nothing else. When the file opens and \<^verbatim>\<open>tar.Open\<close> fails with \<open>e\<close>
  (the file is not gzip), it returns \<open>e\<close> wrapped by line 93, and the only further call
  is the deferred close of the file. When \<^verbatim>\<open>tar.Open\<close> succeeds and the first
  \<^verbatim>\<open>tar.Read\<close> fails with \<open>e\<close> (gzip, but not a tar archive), it returns \<open>e\<close> wrapped by
  line 108. In the first two cases the map \<^verbatim>\<open>files\<close> does not exist yet, in the third no
  entry has been seen: in all three no flag is set.
\<close>

theorem open_failures:
  "(\<forall>e. os_Open w (filepath_Clean w path) = Inl e \<longrightarrow>
       returned (validate w ord path fv s) = Some (Errorf_w ''error reading package: '' e)
     \<and> events (validate w ord path fv s) = [EvOpen (filepath_Clean w path)]
     \<and> (\<forall>k. EvMark k \<notin> set (events (validate w ord path fv s))))
 \<and> (\<forall>a e. os_Open w (filepath_Clean w path) = Inr a \<and> tar_Open a = Some e \<longrightarrow>
       returned (validate w ord path fv s) = Some (Errorf_w ''error unarchiving package: '' e)
     \<and> events (validate w ord path fv s) = [EvOpen (filepath_Clean w path), EvTarOpen, EvFileClose]
     \<and> (\<forall>k. EvMark k \<notin> set (events (validate w ord path fv s))))
 \<and> (\<forall>a. os_Open w (filepath_Clean w path) = Inr a \<and> tar_Open a = None
          \<and> tar_entries a = [] \<and> tar_ending a \<noteq> io_EOF \<longrightarrow>
       returned (validate w ord path fv s) =
         Some (Errorf_w ''error reading package: '' (tar_ending a))
     \<and> events (validate w ord path fv s) =
         [EvOpen (filepath_Clean w path), EvTarOpen, EvRead, EvTarClose, EvFileClose]
     \<and> (\<forall>k. EvMark k \<notin> set (events (validate w ord path fv s))))"
  by (simp add: validate_def Let_def log_def)

text \<open>C6 at a path that does not exist, at a file that is not gzip, and at a gzip file
  that is not a tar archive.\<close>

theorem open_failures_witness:
  "returned (validate no_such_file fastly_first ''missing.tar.gz'' None ()) =
     Some (WrapError ''error reading package: open missing.tar.gz: no such file or directory''
            (ErrorString ''open missing.tar.gz: no such file or directory''))
   \<and> events (validate no_such_file fastly_first ''missing.tar.gz'' None ()) =
       [EvOpen ''missing.tar.gz'']
   \<and> returned (validate not_gzip fastly_first ''notes.txt'' None ()) =
     Some (WrapError ''error unarchiving package: gzip: invalid header''
            (ErrorString ''gzip: invalid header''))
   \<and> events (validate not_gzip fastly_first ''notes.txt'' None ()) =
       [EvOpen ''notes.txt'', EvTarOpen, EvFileClose]
   \<and> returned (validate (package [] (ErrorString ''archive/tar: invalid tar header''))
        fastly_first ''notes.txt.gz'' None ()) =
     Some (Errorf_w ''error reading package: '' (ErrorString ''archive/tar: invalid tar header''))
   \<and> events (validate (package [] (ErrorString ''archive/tar: invalid tar header''))
        fastly_first ''notes.txt.gz'' None ()) =
       [EvOpen ''notes.txt.gz'', EvTarOpen, EvRead, EvTarClose, EvFileClose]"
proof -
  let ?a = "\<lparr>tar_Open = None, tar_entries = [],
             tar_ending = ErrorString ''archive/tar: invalid tar header''\<rparr>"
  let ?w = "package [] (ErrorString ''archive/tar: invalid tar header'')"
  have o: "os_Open no_such_file (filepath_Clean no_such_file ''missing.tar.gz'') =
      Inl (ErrorString ''open missing.tar.gz: no such file or directory'')"
    by (simp add: no_such_file_def)
  have g: "os_Open not_gzip (filepath_Clean not_gzip ''notes.txt'') =
        Inr \<lparr>tar_Open = Some (ErrorString ''gzip: invalid header''),
              tar_entries = [], tar_ending = io_EOF\<rparr>
      \<and> tar_Open \<lparr>tar_Open = Some (ErrorString ''gzip: invalid header''),
              tar_entries = [], tar_ending = io_EOF\<rparr> = Some (ErrorString ''gzip: invalid header'')"
    by (simp add: not_gzip_def)
  have t: "os_Open ?w (filepath_Clean ?w ''notes.txt.gz'') = Inr ?a \<and> tar_Open ?a = None
      \<and> tar_entries ?a = [] \<and> tar_ending ?a \<noteq> io_EOF"
    by (simp add: package_def io_EOF_def)
  have c: "filepath_Clean no_such_file ''missing.tar.gz'' = ''missing.tar.gz''"
    "filepath_Clean not_gzip ''notes.txt'' = ''notes.txt''"
    "filepath_Clean ?w ''notes.txt.gz'' = ''notes.txt.gz''"
    by (simp_all add: no_such_file_def not_gzip_def package_def)
  from open_failures [of no_such_file "''missing.tar.gz''" fastly_first None "()",
      THEN conjunct1, rule_format, OF o]
  have 1: "returned (validate no_such_file fastly_first ''missing.tar.gz'' None ()) =
     Some (WrapError ''error reading package: open missing.tar.gz: no such file or directory''
            (ErrorString ''open missing.tar.gz: no such file or directory''))"
    "events (validate no_such_file fastly_first ''missing.tar.gz'' None ()) =
       [EvOpen ''missing.tar.gz'']"
    by (simp_all add: c Errorf_w_def)
  from open_failures [of not_gzip "''notes.txt''" fastly_first None "()",
      THEN conjunct2, THEN conjunct1, rule_format, OF g]
  have 2: "returned (validate not_gzip fastly_first ''notes.txt'' None ()) =
     Some (WrapError ''error unarchiving package: gzip: invalid header''
            (ErrorString ''gzip: invalid header''))"
    "events (validate not_gzip fastly_first ''notes.txt'' None ()) =
       [EvOpen ''notes.txt'', EvTarOpen, EvFileClose]"
    by (simp_all add: c Errorf_w_def)
  from open_failures [of ?w "''notes.txt.gz''" fastly_first None "()",
      THEN conjunct2, THEN conjunct2, rule_format, OF t]
  have 3: "returned (validate ?w fastly_first ''notes.txt.gz'' None ()) =
     Some (Errorf_w ''error reading package: '' (ErrorString ''archive/tar: invalid tar header''))"
    "events (validate ?w fastly_first ''notes.txt.gz'' None ()) =
       [EvOpen ''notes.txt.gz'', EvTarOpen, EvRead, EvTarClose, EvFileClose]"
    by (simp_all add: c)
  from 1 2 3 show ?thesis by (intro conjI)
qed

subsection \<open>C7: a validator that accepts everything\<close>

text \<open>
  C7, as it is stated, asks for identical outcomes of a call with a validator that
  accepts every entry and a call with none. The two are two calls, each with \<^verbatim>\<open>range\<close>
  orders of its own. On a package that holds a readme only, the call with the accepting
  validator, in which \<^verbatim>\<open>range\<close> yields \<^verbatim>\<open>fastly.toml\<close> first, reports \<^verbatim>\<open>fastly.toml\<close>, and
  the call with no validator, in which it yields \<^verbatim>\<open>main.wasm\<close> first, reports \<^verbatim>\<open>main.wasm\<close>.
\<close>

theorem accepting_validator_differs:
  "(\<forall>f s. fst (accept_all f s) = None)
   \<and> returned (validate (package [entry ''README.md''] io_EOF) fastly_first ''pkg.tar.gz''
        (Some accept_all) 0)
     \<noteq> returned (validate (package [entry ''README.md''] io_EOF) wasm_first ''pkg.tar.gz''
        None ())"
  by (simp add: run_defs package_def entry_def fastly_first_def wasm_first_def accept_all_def)

text \<open>
  C7, amended. For every package, a call with a validator that answers \<^verbatim>\<open>nil\<close> on every
  entry, in every state of its own, and a call with a \<^verbatim>\<open>nil\<close> validator return the same
  error or both \<^verbatim>\<open>nil\<close>, whatever the \<^verbatim>\<open>range\<close> orders of the two calls, with one
  exception: when the package has neither \<^verbatim>\<open>fastly.toml\<close> nor \<^verbatim>\<open>main.wasm\<close> and the calls
  reach the loop of line 130, both return a missing-file error and each names the key
  that its own \<^verbatim>\<open>range\<close> statement yields first.
\<close>

theorem accepting_validator_same_outcome:
  assumes "\<forall>f s. fst (h f s) = None" and "range_ok ord1" and "range_ok ord2"
  shows "returned (validate w ord1 path (Some h) s) = returned (validate w ord2 path None s')
    \<or> (\<exists>a. os_Open w (filepath_Clean w path) = Inr a
          \<and> ''fastly.toml'' \<notin> Name ` set (tar_entries a)
          \<and> ''main.wasm'' \<notin> Name ` set (tar_entries a)
          \<and> returned (validate w ord1 path (Some h) s) =
              Some (Errorf_missing (hd (ord1 (length (tar_entries a)))))
          \<and> returned (validate w ord2 path None s') =
              Some (Errorf_missing (hd (ord2 (length (tar_entries a))))))"
proof (cases "os_Open w (filepath_Clean w path)")
  case (Inl e)
  then show ?thesis by (simp add: validate_not_opened)
next
  case (Inr a)
  show ?thesis
  proof (cases "tar_Open a")
    case (Some e)
    with Inr show ?thesis by (simp add: validate_not_opened)
  next
    case None
    let ?p = "[EvOpen (filepath_Clean w path), EvTarOpen]"
    let ?f0 = "[''fastly.toml'' \<mapsto> False, ''main.wasm'' \<mapsto> False]"
    let ?st = "\<lparr>files = ?f0, hstate = s, ranges = 0, trace = ?p\<rparr>"
    let ?st' = "\<lparr>files = ?f0, hstate = s', ranges = 0, trace = ?p\<rparr>"
    obtain r t where l: "stream_loop (Some h) ord1 (tar_ending a) (tar_entries a) ?st = (r, t)"
      by (cases "stream_loop (Some h) ord1 (tar_ending a) (tar_entries a) ?st")
    obtain r' t' where l': "stream_loop None ord2 (tar_ending a) (tar_entries a) ?st' = (r', t')"
      by (cases "stream_loop None ord2 (tar_ending a) (tar_entries a) ?st'")
    have "files ?st = files ?st'" "ranges ?st = ranges ?st'" by simp_all
    from stream_loop_accepting [OF assms(1) this, of ord1 "tar_ending a" "tar_entries a"]
    have "fst (stream_loop (Some h) ord1 (tar_ending a) (tar_entries a) ?st) =
        fst (stream_loop None ord1 (tar_ending a) (tar_entries a) ?st')"
      by simp
    also from stream_loop_order [of ?st' ?st' None ord1 "tar_ending a" "tar_entries a" ord2]
    have "\<dots> = fst (stream_loop None ord2 (tar_ending a) (tar_entries a) ?st')"
      by simp
    finally have r: "r' = r" using l l' by simp
    show ?thesis
    proof (cases r)
      case (Some err)
      with r show ?thesis
        unfolding validate_returned(1) [OF Inr None l] validate_returned(1) [OF Inr None l']
        by simp
    next
      case None': None
      from stream_loop_None_clean [of "Some h" ord1 "tar_ending a" "tar_entries a" ?st] l None'
      have en: "tar_ending a = io_EOF" and cl: "\<forall>f\<in>set (tar_entries a). Close f = None"
        and ac: "accepted (Some h) (tar_entries a) s \<noteq> None"
        by simp_all
      have ac': "accepted None (tar_entries a) s' \<noteq> None"
        by (simp add: accepted_None)
      show ?thesis
        unfolding validate_clean_cases [OF assms(2) Inr None en cl ac]
          validate_clean_cases [OF assms(3) Inr None en cl ac']
        by (simp add: Inr)
    qed
  qed
qed

text \<open>C7 at the counting validator \<open>accept_all\<close>, a package without \<^verbatim>\<open>main.wasm\<close> and the
  two \<^verbatim>\<open>range\<close> orders.\<close>

theorem accepting_validator_same_outcome_witness:
  "(\<forall>f s. fst (accept_all f s) = None)
   \<and> returned (validate (package [entry ''fastly.toml'', entry ''README.md''] io_EOF)
        fastly_first ''pkg.tar.gz'' (Some accept_all) 0)
     = returned (validate (package [entry ''fastly.toml'', entry ''README.md''] io_EOF)
        wasm_first ''pkg.tar.gz'' None ())"
proof -
  let ?a = "\<lparr>tar_Open = None, tar_entries = [entry ''fastly.toml'', entry ''README.md''],
             tar_ending = io_EOF\<rparr>"
  let ?w = "package [entry ''fastly.toml'', entry ''README.md''] io_EOF"
  have a: "\<forall>f s. fst (accept_all f s) = None"
    by (simp add: accept_all_def)
  have n: "\<not> (\<exists>b. os_Open ?w (filepath_Clean ?w ''pkg.tar.gz'') = Inr b
          \<and> ''fastly.toml'' \<notin> Name ` set (tar_entries b)
          \<and> ''main.wasm'' \<notin> Name ` set (tar_entries b)
          \<and> returned (validate ?w fastly_first ''pkg.tar.gz'' (Some accept_all) 0) =
              Some (Errorf_missing (hd (fastly_first (length (tar_entries b)))))
          \<and> returned (validate ?w wasm_first ''pkg.tar.gz'' None ()) =
              Some (Errorf_missing (hd (wasm_first (length (tar_entries b))))))"
    by (auto simp: package_def entry_def)
  let ?e = "\<exists>b. os_Open ?w (filepath_Clean ?w ''pkg.tar.gz'') = Inr b
          \<and> ''fastly.toml'' \<notin> Name ` set (tar_entries b)
          \<and> ''main.wasm'' \<notin> Name ` set (tar_entries b)
          \<and> returned (validate ?w fastly_first ''pkg.tar.gz'' (Some accept_all) 0) =
              Some (Errorf_missing (hd (fastly_first (length (tar_entries b)))))
          \<and> returned (validate ?w wasm_first ''pkg.tar.gz'' None ()) =
              Some (Errorf_missing (hd (wasm_first (length (tar_entries b)))))"
  have d: "returned (validate ?w fastly_first ''pkg.tar.gz'' (Some accept_all) 0)
        = returned (validate ?w wasm_first ''pkg.tar.gz'' None ()) \<or> ?e"
    by (rule accepting_validator_same_outcome [OF a range_ok_orders])
  from d have "returned (validate ?w fastly_first ''pkg.tar.gz'' (Some accept_all) 0)
     = returned (validate ?w wasm_first ''pkg.tar.gz'' None ())"
  proof (rule disjE)
    assume "returned (validate ?w fastly_first ''pkg.tar.gz'' (Some accept_all) 0)
        = returned (validate ?w wasm_first ''pkg.tar.gz'' None ())"
    then show ?thesis .
  next
    assume ?e
    with n show ?thesis by (rule notE)
  qed
  with a show ?thesis by (rule conjI)
qed

subsection \<open>C8: validating twice\<close>

text \<open>
  C8, as it is stated, asks for the same outcome, down to the reported name, from two
  calls on the same well-formed archive. A package that holds a readme only lacks both
  required names; the call in which \<^verbatim>\<open>range\<close> yields \<^verbatim>\<open>fastly.toml\<close> first reports
  \<^verbatim>\<open>fastly.toml\<close>, the call in which it yields \<^verbatim>\<open>main.wasm\<close> first reports \<^verbatim>\<open>main.wasm\<close>,
  and Go leaves the order to the runtime.
\<close>

theorem validate_twice_differs:
  "returned (validate (package [entry ''README.md''] io_EOF) fastly_first ''pkg.tar.gz'' None ())
   \<noteq> returned (validate (package [entry ''README.md''] io_EOF) wasm_first ''pkg.tar.gz'' None ())"
  by (simp add: run_defs package_def entry_def fastly_first_def wasm_first_def)

text \<open>
  C8, amended. Two calls on the same package, with the same validator in the same
  state, return the same error or both \<^verbatim>\<open>nil\<close>, whatever the \<^verbatim>\<open>range\<close> orders of the two
  calls, with one exception: when the package has neither \<^verbatim>\<open>fastly.toml\<close> nor \<^verbatim>\<open>main.wasm\<close>
  and the calls reach the loop of line 130, both return a missing-file error and each
  names the key that its own \<^verbatim>\<open>range\<close> statement yields first.
\<close>

theorem validate_twice_same_outcome:
  assumes "range_ok ord1" and "range_ok ord2"
  shows "returned (validate w ord1 path fv s) = returned (validate w ord2 path fv s)
    \<or> (\<exists>a. os_Open w (filepath_Clean w path) = Inr a
          \<and> ''fastly.toml'' \<notin> Name ` set (tar_entries a)
          \<and> ''main.wasm'' \<notin> Name ` set (tar_entries a)
          \<and> returned (validate w ord1 path fv s) =
              Some (Errorf_missing (hd (ord1 (length (tar_entries a)))))
          \<and> returned (validate w ord2 path fv s) =
              Some (Errorf_missing (hd (ord2 (length (tar_entries a))))))"
proof (cases "os_Open w (filepath_Clean w path)")
  case (Inl e)
  then show ?thesis by (simp add: validate_not_opened)
next
  case (Inr a)
  show ?thesis
  proof (cases "tar_Open a")
    case (Some e)
    with Inr show ?thesis by (simp add: validate_not_opened)
  next
    case None
    let ?st = "\<lparr>files = [''fastly.toml'' \<mapsto> False, ''main.wasm'' \<mapsto> False],
              hstate = s, ranges = 0, trace = [EvOpen (filepath_Clean w path), EvTarOpen]\<rparr>"
    obtain r1 t1 where l1: "stream_loop fv ord1 (tar_ending a) (tar_entries a) ?st = (r1, t1)"
      by (cases "stream_loop fv ord1 (tar_ending a) (tar_entries a) ?st")
    obtain r2 t2 where l2: "stream_loop fv ord2 (tar_ending a) (tar_entries a) ?st = (r2, t2)"
      by (cases "stream_loop fv ord2 (tar_ending a) (tar_entries a) ?st")
    from stream_loop_order [of ?st ?st fv ord1 "tar_ending a" "tar_entries a" ord2] l1 l2
    have r: "r2 = r1" by simp
    show ?thesis
    proof (cases r1)
      case (Some err)
      with r show ?thesis
        unfolding validate_returned(1) [OF Inr None l1] validate_returned(1) [OF Inr None l2]
        by simp
    next
      case None': None
      from stream_loop_None_clean [of fv ord1 "tar_ending a" "tar_entries a" ?st] l1 None'
      have en: "tar_ending a = io_EOF" and cl: "\<forall>f\<in>set (tar_entries a). Close f = None"
        and ac: "accepted fv (tar_entries a) s \<noteq> None"
        by simp_all
      show ?thesis
        unfolding validate_clean_cases [OF assms(1) Inr None en cl ac]
          validate_clean_cases [OF assms(2) Inr None en cl ac]
        by (simp add: Inr)
    qed
  qed
qed

text \<open>C8 at a package without \<^verbatim>\<open>main.wasm\<close> and the two \<^verbatim>\<open>range\<close> orders.\<close>

theorem validate_twice_same_outcome_witness:
  "returned (validate (package [entry ''fastly.toml''] io_EOF) fastly_first ''pkg.tar.gz'' None ())
   = returned (validate (package [entry ''fastly.toml''] io_EOF) wasm_first ''pkg.tar.gz'' None ())"
  using validate_twice_same_outcome [OF range_ok_orders,
      of "package [entry ''fastly.toml''] io_EOF" "''pkg.tar.gz''" None "()"]
  by (simp add: package_def entry_def)

subsection \<open>C9: a failing close ends the call\<close>

text \<open>
  C9. Let the loop come to the close of line 124 for the entry \<open>f\<close> that follows the
  entries \<open>pre\<close> (no validator, or one that has accepted them all and \<open>f\<close>; the entries
  \<open>pre\<close> closed cleanly), and let \<^verbatim>\<open>f.Close()\<close> answer with the error \<open>e\<close>. Then
  \<^verbatim>\<open>validate\<close> returns \<open>e\<close> wrapped by line 126, that close is its last call before the
  deferred closes, \<^verbatim>\<open>tar.Read\<close> has been called once for each entry up to \<open>f\<close> and never
  again, and the loop over the required names has not run.
\<close>

theorem close_error_aborts:
  assumes "range_ok ord"
    and "os_Open w (filepath_Clean w path) = Inr a" and "tar_Open a = None"
    and "tar_entries a = pre @ f # rest"
    and "\<forall>g\<in>set pre. Close g = None"
    and "accepted fv (pre @ [f]) s = Some s1"
    and "Close f = Some e"
  shows "returned (validate w ord path fv s) = Some (Errorf_w ''error closing file: '' e)
    \<and> (\<exists>tr. events (validate w ord path fv s) = tr @ [EvClose f, EvTarClose, EvFileClose])
    \<and> count_list (events (validate w ord path fv s)) EvRead = Suc (length pre)
    \<and> EvCheck \<notin> set (events (validate w ord path fv s))"
proof -
  from validate_close_fail [OF assms] obtain tr where
    "validate w ord path fv s =
      \<lparr>returned = Some (Errorf_w ''error closing file: '' e),
       events = tr @ [EvClose f, EvTarClose, EvFileClose], hook_state = s1\<rparr>"
    and "count_list tr EvRead = Suc (length pre)" and "EvCheck \<notin> set tr"
    by blast
  then show ?thesis by simp
qed

text \<open>C9 at a package whose second entry does not close cleanly, with no validator.\<close>

theorem close_error_aborts_witness:
  "returned (validate
      (package [entry ''fastly.toml'', broken_entry ''main.wasm'', entry ''README.md''] io_EOF)
      fastly_first ''pkg.tar.gz'' None ())
     = Some (Errorf_w ''error closing file: '' (ErrorString ''close failed''))
   \<and> (\<exists>tr. events (validate
      (package [entry ''fastly.toml'', broken_entry ''main.wasm'', entry ''README.md''] io_EOF)
      fastly_first ''pkg.tar.gz'' None ()) =
               tr @ [EvClose (broken_entry ''main.wasm''), EvTarClose, EvFileClose])
   \<and> count_list (events (validate
      (package [entry ''fastly.toml'', broken_entry ''main.wasm'', entry ''README.md''] io_EOF)
      fastly_first ''pkg.tar.gz'' None ())) EvRead = Suc (length [entry ''fastly.toml''])
   \<and> EvCheck \<notin> set (events (validate
      (package [entry ''fastly.toml'', broken_entry ''main.wasm'', entry ''README.md''] io_EOF)
      fastly_first ''pkg.tar.gz'' None ()))"
  by (rule close_error_aborts
        [where a = "\<lparr>tar_Open = None,
             tar_entries = [entry ''fastly.toml'', broken_entry ''main.wasm'', entry ''README.md''],
             tar_ending = io_EOF\<rparr>"
           and rest = "[entry ''README.md'']" and ?s1.0 = "()"])
     (simp_all add: range_ok_orders package_def entry_def broken_entry_def)

subsection \<open>C10: the close after a rejection\<close>

text \<open>
  C10. Let the validator reject the entry \<open>f\<close> with the error \<open>e\<close>, as in C3, and let the
  close of \<open>f\<close> fail as well, with \<open>ce\<close>. Line 119 calls \<^verbatim>\<open>f.Close()\<close> and drops its answer:
  \<^verbatim>\<open>validate\<close> returns the validator's error \<open>e\<close>, and the close is the last call before
  the deferred closes.
\<close>

theorem close_error_discarded_on_reject:
  assumes "range_ok ord"
    and "os_Open w (filepath_Clean w path) = Inr a" and "tar_Open a = None"
    and "tar_entries a = pre @ f # rest"
    and "\<forall>g\<in>set pre. Close g = None"
    and "accepted (Some h) pre s = Some s1"
    and "h f s1 = (Some e, s2)"
    and "Close f = Some ce"
  shows "returned (validate w ord path (Some h) s) = Some e
    \<and> (\<exists>tr. events (validate w ord path (Some h) s) =
               tr @ [EvHook f, EvClose f, EvTarClose, EvFileClose])"
proof -
  from validate_reject [OF assms(1-7)] obtain tr where
    "validate w ord path (Some h) s =
      \<lparr>returned = Some e, events = tr @ [EvHook f, EvClose f, EvTarClose, EvFileClose],
       hook_state = s2\<rparr>"
    by blast
  then show ?thesis by simp
qed

text \<open>C10 at a package whose \<^verbatim>\<open>secret.key\<close> entry is rejected and does not close cleanly.\<close>

theorem close_error_discarded_on_reject_witness:
  "returned (validate
      (package [entry ''fastly.toml'', broken_entry ''secret.key'', entry ''main.wasm''] io_EOF)
      wasm_first ''pkg.tar.gz'' (Some reject_secret) 0)
     = Some (ErrorString ''package contains secret.key'')
   \<and> (\<exists>tr. events (validate
      (package [entry ''fastly.toml'', broken_entry ''secret.key'', entry ''main.wasm''] io_EOF)
      wasm_first ''pkg.tar.gz'' (Some reject_secret) 0) =
               tr @ [EvHook (broken_entry ''secret.key''), EvClose (broken_entry ''secret.key''),
                     EvTarClose, EvFileClose])"
  by (rule close_error_discarded_on_reject
        [where a = "\<lparr>tar_Open = None,
             tar_entries = [entry ''fastly.toml'', broken_entry ''secret.key'', entry ''main.wasm''],
             tar_ending = io_EOF\<rparr>"
           and pre = "[entry ''fastly.toml'']"
           and rest = "[entry ''main.wasm'']" and ?s1.0 = "Suc 0" and ?s2.0 = "Suc (Suc 0)"
           and ce = "ErrorString ''close failed''"])
     (simp_all add: range_ok_orders package_def entry_def broken_entry_def reject_secret_def)

end
